theory Spec2Isabelle
  imports Main "HOL-Library.AList"
begin

section \<open>Python values and exceptions\<close>

text \<open>
  The values that travel through \<^verbatim>\<open>webargs/core.py\<close>: what a fetch function pulls
  from a request, what \<^verbatim>\<open>convert\<close> produces, what \<^verbatim>\<open>validate\<close> answers. A Python
  \<^verbatim>\<open>set\<close> is kept as the list of its elements in insertion order; no two of them are
  equal in Python's sense.
\<close>

datatype pyval =
    PNone
  | PBool bool
  | PInt int
  | PStr string
  | PList "pyval list"
  | PSet "pyval list"

text \<open>Truthiness, as tested by \<^verbatim>\<open>if x\<close> and \<^verbatim>\<open>not x\<close>.\<close>

fun truthy :: "pyval \<Rightarrow> bool" where
  "truthy PNone = False"
| "truthy (PBool b) = b"
| "truthy (PInt i) = (i \<noteq> 0)"
| "truthy (PStr s) = (s \<noteq> [])"
| "truthy (PList xs) = (xs \<noteq> [])"
| "truthy (PSet xs) = (xs \<noteq> [])"

text \<open>\<^verbatim>\<open>isinstance(value, list)\<close> and \<^verbatim>\<open>len(value)\<close> (used only under that test).\<close>

fun isinstance_list :: "pyval \<Rightarrow> bool" where
  "isinstance_list (PList xs) = True"
| "isinstance_list v = False"

fun len :: "pyval \<Rightarrow> nat" where
  "len (PList xs) = length xs"
| "len (PSet xs) = length xs"
| "len (PStr s) = length s"
| "len v = 0"

text \<open>
  Lists and sets are unhashable; \<^verbatim>\<open>True == 1\<close> and \<^verbatim>\<open>False == 0\<close> with equal
  hashes, so a set holds one of them only. \<open>py_key\<close> maps a hashable value to the
  representative of its equality class.
\<close>

fun hashable :: "pyval \<Rightarrow> bool" where
  "hashable (PList xs) = False"
| "hashable (PSet xs) = False"
| "hashable v = True"

fun py_key :: "pyval \<Rightarrow> pyval" where
  "py_key (PBool b) = PInt (if b then 1 else 0)"
| "py_key v = v"

definition py_eq :: "pyval \<Rightarrow> pyval \<Rightarrow> bool" where
  "py_eq a b = (py_key a = py_key b)"

text \<open>
  The exceptions. \<open>Exception\<close> stands for whatever else user code raises. Every
  exception here derives from Python's \<^verbatim>\<open>Exception\<close>, which is what the
  \<^verbatim>\<open>except Exception\<close> clauses of the source catch.
\<close>

datatype exn =
    Exception string
  | TypeError string
  | AttributeError string
  | InternalValidationError exn
  | InternalConversionError exn
  | InternalInvalidArg
  | ValidationError exn string
  | ConversionError exn string
  | InvalidArg string
  | MissingArg string
  | WebargsValueError pyval string

text \<open>The three name-less errors raised inside \<^verbatim>\<open>Arg\<close>.\<close>

fun internal_error :: "exn \<Rightarrow> bool" where
  "internal_error (InternalValidationError e) = True"
| "internal_error (InternalConversionError e) = True"
| "internal_error InternalInvalidArg = True"
| "internal_error e = False"

text \<open>\<^verbatim>\<open>list(xs)\<close> and \<^verbatim>\<open>set(xs)\<close> of a list; the latter raises on an unhashable element.\<close>

definition set_add :: "pyval list \<Rightarrow> pyval \<Rightarrow> pyval list" where
  "set_add s x = (if list_ex (\<lambda>y. py_eq y x) s then s else s @ [x])"

definition py_list :: "pyval list \<Rightarrow> exn + pyval" where
  "py_list xs = Inr (PList xs)"

definition py_set :: "pyval list \<Rightarrow> exn + pyval" where
  "py_set xs =
     (if list_all hashable xs then Inr (PSet (foldl set_add [] xs))
      else Inl (TypeError ''unhashable type''))"

section \<open>Arg\<close>

datatype container = CList | CSet

record arg =
  convert :: "pyval \<Rightarrow> exn + pyval"
  validate :: "pyval \<Rightarrow> exn + pyval"
  default_value :: pyval
  required :: bool
  multiple :: "container option"
  allow_missing :: bool
  target :: "string option"

definition noop :: "pyval \<Rightarrow> exn + pyval" where
  "noop x = Inr x"

text \<open>
  \<^verbatim>\<open>Arg.__init__\<close>. The parameter types leave out what \<^verbatim>\<open>_callable\<close> and the test
  \<^verbatim>\<open>multiple not in (list, set, None)\<close> reject: a converter or validator is a function
  here, and \<open>multiple\<close> is one of the two containers or absent.
\<close>

definition Arg ::
  "(pyval \<Rightarrow> exn + pyval) option \<Rightarrow> pyval \<Rightarrow> bool \<Rightarrow> (pyval \<Rightarrow> exn + pyval) option \<Rightarrow>
   container option \<Rightarrow> bool \<Rightarrow> string option \<Rightarrow> exn + arg" where
  "Arg convert0 default0 required0 validate0 multiple0 allow_missing0 target0 =
     (if required0 \<and> allow_missing0
      then Inl (WebargsValueError PNone ''\"required\" and \"allow_missing\" cannot both be True.'')
      else Inr \<lparr>
        convert = (case convert0 of None \<Rightarrow> noop | Some f \<Rightarrow> f),
        validate = (case validate0 of None \<Rightarrow> (\<lambda>x. Inr (PBool True)) | Some f \<Rightarrow> f),
        default_value =
          (case multiple0 of
             None \<Rightarrow> default0
           | Some CList \<Rightarrow> (if default0 = PNone then PList [] else default0)
           | Some CSet \<Rightarrow> (if default0 = PNone then PSet [] else default0)),
        required = required0,
        multiple = multiple0,
        allow_missing = allow_missing0,
        target = target0 \<rparr>)"

text \<open>\<^verbatim>\<open>Arg._validate\<close>: convert, then validate; both failures are re-raised name-less.\<close>

definition Arg_validate :: "arg \<Rightarrow> pyval \<Rightarrow> exn + pyval" where
  "Arg_validate self v =
     (case convert self v of
        Inl e \<Rightarrow> Inl (InternalConversionError e)
      | Inr ret \<Rightarrow>
          (case validate self ret of
             Inl e \<Rightarrow> Inl (InternalValidationError e)
           | Inr validated \<Rightarrow>
               if \<not> truthy validated then Inl InternalInvalidArg else Inr ret))"

text \<open>The list comprehension \<^verbatim>\<open>[self._validate(each) for each in value]\<close>: the first
  element that raises ends it.\<close>

fun validate_each :: "arg \<Rightarrow> pyval list \<Rightarrow> exn + pyval list" where
  "validate_each self [] = Inr []"
| "validate_each self (each # rest) =
     (case Arg_validate self each of
        Inl e \<Rightarrow> Inl e
      | Inr r \<Rightarrow>
          (case validate_each self rest of
             Inl e \<Rightarrow> Inl e
           | Inr rs \<Rightarrow> Inr (r # rs)))"

text \<open>\<^verbatim>\<open>Arg.validated\<close>; \<^verbatim>\<open>self.multiple(...)\<close> calls the container class on
  the list of results.\<close>

fun call_container :: "container \<Rightarrow> pyval list \<Rightarrow> exn + pyval" where
  "call_container CList rs = py_list rs"
| "call_container CSet rs = py_set rs"

fun items :: "pyval \<Rightarrow> pyval list" where
  "items (PList xs) = xs"
| "items (PSet xs) = xs"
| "items v = []"

definition Arg_validated :: "arg \<Rightarrow> pyval \<Rightarrow> exn + pyval" where
  "Arg_validated self v =
     (case multiple self of
        Some c \<Rightarrow>
          if isinstance_list v then
            (case validate_each self (items v) of
               Inl e \<Rightarrow> Inl e
             | Inr rs \<Rightarrow> call_container c rs)
          else Arg_validate self v
      | None \<Rightarrow> Arg_validate self v)"

section \<open>Parser\<close>

text \<open>
  What the parser does to the outside world is kept in a log: which fetch function it
  called (for which target and argument name), whether it called the fallback, and to
  which error handler it handed an error. Every function below returns the log of its
  calls beside its result.
\<close>

datatype event =
    Fetched string string
  | FellBack string
  | ErrorCallback exn
  | HandleError exn

type_synonym 'a logged = "event list \<times> 'a"

definition after :: "event list \<Rightarrow> 'a logged \<Rightarrow> 'a logged" where
  "after ev r = (ev @ fst r, snd r)"

type_synonym 'req fetch = "'req \<Rightarrow> string \<Rightarrow> arg \<Rightarrow> exn + pyval"

text \<open>A value of \<^verbatim>\<open>TARGET_MAP\<close>: the name of a method of the parser, or a function.\<close>

datatype 'req handler = Method string | Function "'req fetch"

fun handler_truthy :: "'req handler \<Rightarrow> bool" where
  "handler_truthy (Method m) = (m \<noteq> [])"
| "handler_truthy (Function f) = True"

text \<open>
  A parser object: its attributes \<^verbatim>\<open>targets\<close> and \<^verbatim>\<open>error_callback\<close>, the
  \<^verbatim>\<open>TARGET_MAP\<close> it sees, and the methods a subclass may override (\<open>methods\<close> is
  what \<^verbatim>\<open>getattr(self, func)\<close> finds). In the source \<^verbatim>\<open>TARGET_MAP\<close> is an
  attribute of the class, which \<^verbatim>\<open>target_handler\<close> updates in place; here every parser
  value carries the map it sees, and \<open>target_handler\<close> returns the parser with the
  updated map.
\<close>

record 'req parser =
  targets :: "string list"
  error_callback :: "(exn \<Rightarrow> exn + pyval) option"
  TARGET_MAP :: "string \<rightharpoonup> 'req handler"
  methods :: "string \<rightharpoonup> 'req fetch"
  fallback :: "'req fetch"
  handle_error :: "exn \<Rightarrow> exn + pyval"

definition DEFAULT_TARGETS :: "string list" where
  "DEFAULT_TARGETS = [''querystring'', ''form'', ''json'']"

definition DEFAULT_TARGET_MAP :: "string \<rightharpoonup> 'req handler" where
  "DEFAULT_TARGET_MAP =
     [''json'' \<mapsto> Method ''parse_json'',
      ''querystring'' \<mapsto> Method ''parse_querystring'',
      ''form'' \<mapsto> Method ''parse_form'',
      ''headers'' \<mapsto> Method ''parse_headers'',
      ''cookies'' \<mapsto> Method ''parse_cookies'',
      ''files'' \<mapsto> Method ''parse_files'']"

text \<open>The methods of the base class: each returns \<^verbatim>\<open>None\<close>;
  \<^verbatim>\<open>handle_error\<close> raises the error it is given.\<close>

definition return_None :: "'req fetch" where
  "return_None req name a = Inr PNone"

definition base_methods :: "string \<rightharpoonup> 'req fetch" where
  "base_methods =
     [''parse_json'' \<mapsto> return_None,
      ''parse_querystring'' \<mapsto> return_None,
      ''parse_form'' \<mapsto> return_None,
      ''parse_headers'' \<mapsto> return_None,
      ''parse_cookies'' \<mapsto> return_None,
      ''parse_files'' \<mapsto> return_None]"

definition raise_error :: "exn \<Rightarrow> exn + pyval" where
  "raise_error error = Inl error"

text \<open>\<^verbatim>\<open>Parser.__init__\<close>; \<^verbatim>\<open>targets or self.DEFAULT_TARGETS\<close> takes the default for
  \<^verbatim>\<open>None\<close> and for an empty sequence.\<close>

definition or_targets :: "string list option \<Rightarrow> string list \<Rightarrow> string list" where
  "or_targets ts dflt = (case ts of None \<Rightarrow> dflt | Some [] \<Rightarrow> dflt | Some xs \<Rightarrow> xs)"

definition Parser :: "string list option \<Rightarrow> (exn \<Rightarrow> exn + pyval) option \<Rightarrow> 'req parser" where
  "Parser targets0 error_handler0 =
     \<lparr> targets = or_targets targets0 DEFAULT_TARGETS,
       error_callback = error_handler0,
       TARGET_MAP = DEFAULT_TARGET_MAP,
       methods = base_methods,
       fallback = return_None,
       handle_error = raise_error \<rparr>"

text \<open>\<^verbatim>\<open>Parser.target_handler(name)(func)\<close> and \<^verbatim>\<open>Parser.error_handler(func)\<close>.\<close>

definition target_handler :: "'req parser \<Rightarrow> string \<Rightarrow> 'req fetch \<Rightarrow> 'req parser" where
  "target_handler self name func = self\<lparr>TARGET_MAP := (TARGET_MAP self)(name \<mapsto> Function func)\<rparr>"

definition error_handler :: "'req parser \<Rightarrow> (exn \<Rightarrow> exn + pyval) \<Rightarrow> 'req parser" where
  "error_handler self func = self\<lparr>error_callback := Some func\<rparr>"

text \<open>
  \<^verbatim>\<open>Parser._validated_targets\<close>. The source raises with
  \<^verbatim>\<open>WebargsValueError(msg)\<close>, one argument for a constructor that takes
  \<^verbatim>\<open>(arg, msg)\<close>: building the exception fails, and what is raised is Python's
  \<^verbatim>\<open>TypeError\<close> for the missing argument.
\<close>

definition invalid_targets :: "'req parser \<Rightarrow> string list \<Rightarrow> string set" where
  "invalid_targets self ts = set ts - dom (TARGET_MAP self)"

definition Parser_validated_targets :: "'req parser \<Rightarrow> string list \<Rightarrow> exn + string list" where
  "Parser_validated_targets self ts =
     (if invalid_targets self ts \<noteq> {}
      then Inl (TypeError ''__init__() missing 1 required positional argument: msg'')
      else Inr ts)"

text \<open>\<^verbatim>\<open>Parser._get_value\<close>: a target that is not in the map, or whose handler is
  falsy, gives \<^verbatim>\<open>None\<close> and calls nothing.\<close>

definition Parser_get_value ::
  "'req parser \<Rightarrow> string \<Rightarrow> arg \<Rightarrow> 'req \<Rightarrow> string \<Rightarrow> (exn + pyval) logged" where
  "Parser_get_value self name argobj req tgt =
     (case TARGET_MAP self tgt of
        None \<Rightarrow> ([], Inr PNone)
      | Some func \<Rightarrow>
          if handler_truthy func then
            (case func of
               Function f \<Rightarrow> ([Fetched tgt name], f req name argobj)
             | Method m \<Rightarrow>
                 (case methods self m of
                    None \<Rightarrow> ([], Inl (AttributeError m))
                  | Some f \<Rightarrow> ([Fetched tgt name], f req name argobj)))
          else ([], Inr PNone))"

text \<open>The block \<^verbatim>\<open>try: ret = argobj.validated(value) except ...\<close> of
  \<^verbatim>\<open>parse_arg\<close>, which occurs twice there: the three internal errors get the name.\<close>

definition validated_named :: "string \<Rightarrow> arg \<Rightarrow> pyval \<Rightarrow> exn + pyval" where
  "validated_named name argobj v =
     (case Arg_validated argobj v of
        Inl (InternalConversionError e) \<Rightarrow> Inl (ConversionError e name)
      | Inl (InternalValidationError e) \<Rightarrow> Inl (ValidationError e name)
      | Inl InternalInvalidArg \<Rightarrow> Inl (InvalidArg name)
      | Inl e \<Rightarrow> Inl e
      | Inr ret \<Rightarrow> Inr ret)"

text \<open>Lines 264 to 271 of \<^verbatim>\<open>parse_arg\<close>, run with what the local variable
  \<^verbatim>\<open>value\<close> holds when the loop is over.\<close>

definition missing_check :: "string \<Rightarrow> arg \<Rightarrow> pyval \<Rightarrow> exn + pyval" where
  "missing_check name argobj v =
     (if \<not> truthy v \<and> required argobj then Inl (MissingArg name) else Inr v)"

definition after_loop ::
  "'req parser \<Rightarrow> string \<Rightarrow> arg \<Rightarrow> 'req \<Rightarrow> pyval \<Rightarrow> (exn + pyval) logged" where
  "after_loop self name argobj req v =
     (if v = PNone then
        (if default_value argobj \<noteq> PNone then ([], missing_check name argobj (default_value argobj))
         else
           (case fallback self req name argobj of
              Inl e \<Rightarrow> ([FellBack name], Inl e)
            | Inr v' \<Rightarrow> ([FellBack name], missing_check name argobj v')))
      else ([], Inr v))"

text \<open>The \<^verbatim>\<open>for target in ...\<close> loop of \<^verbatim>\<open>parse_arg\<close>; \<open>v\<close> is the local variable
  \<^verbatim>\<open>value\<close>, which every pass overwrites.\<close>

definition usable :: "arg \<Rightarrow> pyval \<Rightarrow> bool" where
  "usable argobj v =
     (\<not> (multiple argobj \<noteq> None \<and> \<not> (isinstance_list v \<and> len v \<noteq> 0)) \<and> v \<noteq> PNone)"

fun scan ::
  "'req parser \<Rightarrow> string \<Rightarrow> arg \<Rightarrow> 'req \<Rightarrow> pyval \<Rightarrow> string list \<Rightarrow> (exn + pyval) logged" where
  "scan self name argobj req v [] = after_loop self name argobj req v"
| "scan self name argobj req v (tgt # rest) =
     (case Parser_get_value self name argobj req tgt of
        (ev, Inl e) \<Rightarrow> (ev, Inl e)
      | (ev, Inr v') \<Rightarrow>
          if multiple argobj \<noteq> None \<and> \<not> (isinstance_list v' \<and> len v' \<noteq> 0)
          then after ev (scan self name argobj req v' rest)
          else if v' \<noteq> PNone then (ev, validated_named name argobj v')
          else after ev (scan self name argobj req v' rest))"

text \<open>\<^verbatim>\<open>Parser.parse_arg\<close>. \<^verbatim>\<open>if argobj.target\<close> is false for \<^verbatim>\<open>None\<close> and for
  the empty string.\<close>

definition pinned :: "arg \<Rightarrow> bool" where
  "pinned argobj = (case target argobj of None \<Rightarrow> False | Some t \<Rightarrow> t \<noteq> [])"

definition parse_arg ::
  "'req parser \<Rightarrow> string \<Rightarrow> arg \<Rightarrow> 'req \<Rightarrow> string list option \<Rightarrow> (exn + pyval) logged" where
  "parse_arg self name argobj req targets0 =
     (case (if pinned argobj then Parser_get_value self name argobj req (the (target argobj))
            else ([], Inr PNone)) of
        (ev, Inl e) \<Rightarrow> (ev, Inl e)
      | (ev, Inr v) \<Rightarrow>
          if pinned argobj \<and> v \<noteq> PNone then (ev, validated_named name argobj v)
          else
            (case Parser_validated_targets self (or_targets targets0 (targets self)) of
               Inl e \<Rightarrow> (ev, Inl e)
             | Inr ts \<Rightarrow> after ev (scan self name argobj req v ts)))"

text \<open>
  \<^verbatim>\<open>Parser.parse\<close>. The argument map is given in the order \<^verbatim>\<open>iteritems\<close> walks
  it; the dictionary built is an association list, and \<^verbatim>\<open>parsed[argname] = v\<close> is
  \<open>AList.update\<close>. The result is \<open>Some\<close> dictionary when the function returns one and
  \<open>None\<close> when it falls off its end after an error handler returned.
\<close>

type_synonym pydict = "(string \<times> pyval) list"

fun parse_loop ::
  "'req parser \<Rightarrow> 'req \<Rightarrow> string list option \<Rightarrow> pydict \<Rightarrow> (string \<times> arg) list \<Rightarrow>
   (exn + pydict) logged" where
  "parse_loop self req targets0 parsed [] = ([], Inr parsed)"
| "parse_loop self req targets0 parsed ((argname, argobj) # rest) =
     (case parse_arg self argname argobj req (Some (or_targets targets0 (targets self))) of
        (ev, Inl e) \<Rightarrow> (ev, Inl e)
      | (ev, Inr parsed_value) \<Rightarrow>
          after ev
            (parse_loop self req targets0
               (if parsed_value = PNone \<and> allow_missing argobj then parsed
                else AList.update argname parsed_value parsed)
               rest))"

definition parse ::
  "'req parser \<Rightarrow> (string \<times> arg) list \<Rightarrow> 'req \<Rightarrow> string list option \<Rightarrow>
   (exn + pydict option) logged" where
  "parse self argmap req targets0 =
     (case parse_loop self req targets0 [] argmap of
        (ev, Inr parsed) \<Rightarrow> (ev, Inr (Some parsed))
      | (ev, Inl error) \<Rightarrow>
          (case error_callback self of
             Some cb \<Rightarrow>
               (case cb error of
                  Inl e \<Rightarrow> (ev @ [ErrorCallback error], Inl e)
                | Inr r \<Rightarrow> (ev @ [ErrorCallback error], Inr None))
           | None \<Rightarrow>
               (case handle_error self error of
                  Inl e \<Rightarrow> (ev @ [HandleError error], Inl e)
                | Inr r \<Rightarrow> (ev @ [HandleError error], Inr None))))"

section \<open>Notions used by the properties\<close>

text \<open>
  A target is skipped by the loop of \<^verbatim>\<open>parse_arg\<close> when its fetch returns (raising
  nothing) a value that is not usable: \<^verbatim>\<open>None\<close>, or, for an \<^verbatim>\<open>Arg\<close> with
  \<^verbatim>\<open>multiple\<close>, anything but a non-empty list.
\<close>

definition skipped :: "'req parser \<Rightarrow> string \<Rightarrow> arg \<Rightarrow> 'req \<Rightarrow> string \<Rightarrow> bool" where
  "skipped self name argobj req tgt =
     (case snd (Parser_get_value self name argobj req tgt) of
        Inl e \<Rightarrow> False
      | Inr w \<Rightarrow> \<not> usable argobj w)"

text \<open>The calls that fetching from each target of a list, in order, makes.\<close>

definition fetch_log :: "'req parser \<Rightarrow> string \<Rightarrow> arg \<Rightarrow> 'req \<Rightarrow> string list \<Rightarrow> event list" where
  "fetch_log self name argobj req ts =
     concat (map (\<lambda>tgt. fst (Parser_get_value self name argobj req tgt)) ts)"

text \<open>The pinned target, if there is one, was asked and returned \<^verbatim>\<open>None\<close>.\<close>

definition pinned_log :: "'req parser \<Rightarrow> string \<Rightarrow> arg \<Rightarrow> 'req \<Rightarrow> event list" where
  "pinned_log self name argobj req =
     (if pinned argobj then fst (Parser_get_value self name argobj req (the (target argobj)))
      else [])"

definition pinned_empty :: "'req parser \<Rightarrow> string \<Rightarrow> arg \<Rightarrow> 'req \<Rightarrow> bool" where
  "pinned_empty self name argobj req =
     (pinned argobj \<longrightarrow>
        snd (Parser_get_value self name argobj req (the (target argobj))) = Inr PNone)"

text \<open>
  \<^verbatim>\<open>parse_arg\<close> hands the value \<open>v\<close>, fetched from the target \<open>t\<close>, to
  \<^verbatim>\<open>argobj.validated\<close>: either \<open>t\<close> is the pinned target and \<open>v\<close> is not
  \<^verbatim>\<open>None\<close>, or the pinned target (if any) returned \<^verbatim>\<open>None\<close>, the requested targets
  are valid, those before \<open>t\<close> are skipped and \<open>v\<close> is usable.
\<close>

definition found_at ::
  "'req parser \<Rightarrow> string \<Rightarrow> arg \<Rightarrow> 'req \<Rightarrow> string list option \<Rightarrow>
   string list \<Rightarrow> string \<Rightarrow> string list \<Rightarrow> pyval \<Rightarrow> bool" where
  "found_at self name argobj req targets0 pre t post v =
     (snd (Parser_get_value self name argobj req t) = Inr v \<and>
      (pinned argobj \<and> t = the (target argobj) \<and> v \<noteq> PNone \<or>
       pinned_empty self name argobj req \<and>
       or_targets targets0 (targets self) = pre @ t # post \<and>
       invalid_targets self (pre @ t # post) = {} \<and>
       list_all (skipped self name argobj req) pre \<and>
       usable argobj v))"

text \<open>
  The values that \<^verbatim>\<open>Arg.validated\<close> converts and validates one by one: the elements
  of a list for an \<^verbatim>\<open>Arg\<close> with \<^verbatim>\<open>multiple\<close>, the value itself otherwise. A value
  passes when \<^verbatim>\<open>_validate\<close> returns for it.
\<close>

definition elements :: "arg \<Rightarrow> pyval \<Rightarrow> pyval list" where
  "elements argobj v =
     (if multiple argobj \<noteq> None \<and> isinstance_list v then items v else [v])"

definition passes :: "arg \<Rightarrow> pyval \<Rightarrow> bool" where
  "passes argobj v = (case Arg_validate argobj v of Inl e \<Rightarrow> False | Inr r \<Rightarrow> True)"

text \<open>The calls that resolving each argument of a list, in order, makes.\<close>

definition parse_log ::
  "'req parser \<Rightarrow> 'req \<Rightarrow> string list option \<Rightarrow> (string \<times> arg) list \<Rightarrow> event list" where
  "parse_log self req targets0 args =
     concat (map (\<lambda>(argname, argobj).
        fst (parse_arg self argname argobj req (Some (or_targets targets0 (targets self))))) args)"

section \<open>A sample adapter\<close>

text \<open>
  For the examples: a request is, for each location, a dictionary from names to values,
  and the subclass \<open>DictParser\<close> overrides the six \<^verbatim>\<open>parse_*\<close> methods to look the
  name up in the dictionary of their location (\<^verbatim>\<open>None\<close> when it is not there).
\<close>

type_synonym request = "string \<Rightarrow> string \<rightharpoonup> pyval"

definition lookup :: "string \<Rightarrow> request fetch" where
  "lookup loc req name a = (case req loc name of None \<Rightarrow> Inr PNone | Some v \<Rightarrow> Inr v)"

definition DictParser :: "string list option \<Rightarrow> (exn \<Rightarrow> exn + pyval) option \<Rightarrow> request parser" where
  "DictParser targets0 error_handler0 =
     (Parser targets0 error_handler0)
       \<lparr> methods :=
           [''parse_json'' \<mapsto> lookup ''json'',
            ''parse_querystring'' \<mapsto> lookup ''querystring'',
            ''parse_form'' \<mapsto> lookup ''form'',
            ''parse_headers'' \<mapsto> lookup ''headers'',
            ''parse_cookies'' \<mapsto> lookup ''cookies'',
            ''parse_files'' \<mapsto> lookup ''files''] \<rparr>"

definition no_request :: request where
  "no_request = (\<lambda>loc. Map.empty)"

text \<open>\<^verbatim>\<open>Arg()\<close> with every parameter at its default, as a record.\<close>

definition plain_arg :: arg where
  "plain_arg =
     \<lparr> convert = noop, validate = (\<lambda>x. Inr (PBool True)), default_value = PNone,
       required = False, multiple = None, allow_missing = False, target = None \<rparr>"

lemmas model_defs =
  parse_arg_def Parser_get_value_def Parser_validated_targets_def invalid_targets_def
  or_targets_def after_def after_loop_def missing_check_def validated_named_def
  Arg_validated_def Arg_validate_def noop_def pinned_def usable_def skipped_def
  fetch_log_def pinned_log_def pinned_empty_def parse_log_def parse_def
  py_list_def py_set_def set_add_def py_eq_def

lemmas sample_defs =
  DictParser_def Parser_def DEFAULT_TARGETS_def DEFAULT_TARGET_MAP_def base_methods_def
  return_None_def raise_error_def lookup_def no_request_def plain_arg_def
  target_handler_def error_handler_def

section \<open>The loop over the targets\<close>

lemma invalid_targets_code [code]:
  "invalid_targets self ts = Set.filter (\<lambda>t. TARGET_MAP self t = None) (set ts)"
  by (auto simp: invalid_targets_def)

lemma get_value_log:
  "fst (Parser_get_value self name a req t) = [] \<or>
   fst (Parser_get_value self name a req t) = [Fetched t name]"
  by (auto simp: Parser_get_value_def split: option.splits handler.splits)

lemma plain_arg_built: "Arg None PNone False None None False None = Inr plain_arg"
  by (simp add: Arg_def plain_arg_def)

lemma scan_found:
  assumes "\<forall>u\<in>set pre. skipped self name a req u"
      and "snd (Parser_get_value self name a req t) = Inr v"
      and "usable a v"
  shows "scan self name a req v0 (pre @ t # post) =
           (fetch_log self name a req (pre @ [t]), validated_named name a v)"
  using assms
proof (induction pre arbitrary: v0)
  case Nil
  then show ?case
    by (cases "Parser_get_value self name a req t") (auto simp: fetch_log_def usable_def)
next
  case (Cons u pre)
  obtain ev r where g: "Parser_get_value self name a req u = (ev, r)"
    by (cases "Parser_get_value self name a req u")
  from Cons.prems(1) g obtain w where w: "r = Inr w" "\<not> usable a w"
    by (auto simp: skipped_def split: sum.splits)
  have ih: "scan self name a req w (pre @ t # post) =
           (fetch_log self name a req (pre @ [t]), validated_named name a v)"
    using Cons by simp
  show ?case using g w ih
    by (auto simp: fetch_log_def usable_def after_def)
qed

lemma scan_skipped:
  assumes "\<forall>u\<in>set ts. skipped self name a req u"
      and "snd (Parser_get_value self name a req t) = Inr w"
      and "\<not> usable a w"
  shows "scan self name a req v0 (ts @ [t]) =
           after (fetch_log self name a req (ts @ [t])) (after_loop self name a req w)"
  using assms
proof (induction ts arbitrary: v0)
  case Nil
  then show ?case
    by (cases "Parser_get_value self name a req t") (auto simp: fetch_log_def usable_def after_def)
next
  case (Cons u ts)
  obtain ev r where g: "Parser_get_value self name a req u = (ev, r)"
    by (cases "Parser_get_value self name a req u")
  from Cons.prems(1) g obtain w' where w: "r = Inr w'" "\<not> usable a w'"
    by (auto simp: skipped_def split: sum.splits)
  have ih: "scan self name a req w' (ts @ [t]) =
           after (fetch_log self name a req (ts @ [t])) (after_loop self name a req w)"
    using Cons by simp
  show ?case using g w ih
    by (auto simp: fetch_log_def usable_def after_def)
qed

lemma parse_arg_found:
  assumes "pinned_empty self name a req"
      and "or_targets ts0 (targets self) = pre @ t # post"
      and "invalid_targets self (pre @ t # post) = {}"
      and "\<forall>u\<in>set pre. skipped self name a req u"
      and "snd (Parser_get_value self name a req t) = Inr v"
      and "usable a v"
  shows "parse_arg self name a req ts0 =
           (pinned_log self name a req @ fetch_log self name a req (pre @ [t]),
            validated_named name a v)"
proof -
  have s: "\<And>v0. scan self name a req v0 (pre @ t # post) =
           (fetch_log self name a req (pre @ [t]), validated_named name a v)"
    using assms(4-6) by (rule scan_found)
  show ?thesis
  proof (cases "pinned a")
    case True
    obtain ev where "Parser_get_value self name a req (the (target a)) = (ev, Inr PNone)"
      using True assms(1) by (cases "Parser_get_value self name a req (the (target a))") (auto simp: pinned_empty_def)
    then show ?thesis using True assms(2,3) s
      by (simp add: parse_arg_def Parser_validated_targets_def pinned_log_def after_def)
  next
    case False
    then show ?thesis using assms(2,3) s
      by (simp add: parse_arg_def Parser_validated_targets_def pinned_log_def after_def)
  qed
qed

lemma fetch_log_events:
  "e \<in> set (fetch_log self name a req ts) \<Longrightarrow> \<exists>u \<in> set ts. e = Fetched u name"
proof -
  assume "e \<in> set (fetch_log self name a req ts)"
  then obtain u where u: "u \<in> set ts" "e \<in> set (fst (Parser_get_value self name a req u))"
    by (auto simp: fetch_log_def)
  from get_value_log [of self name a req u] u(2) have "e = Fetched u name"
    by auto
  with u(1) show ?thesis by blast
qed

section \<open>The first usable target wins\<close>

text \<open>
  Claim C3. In the ordered scan (the \<^verbatim>\<open>Arg\<close> has no pinned target), the first target,
  in the given order, whose fetch returns a usable value wins: when the targets before
  \<open>t\<close> are all skipped and the fetch of \<open>t\<close> returns the usable value \<open>v\<close>, then
  \<^verbatim>\<open>parse_arg\<close> gives what converting and validating \<open>v\<close> gives, and the calls it
  made are the fetches of the targets up to \<open>t\<close> and nothing else: no later target is
  asked. With the targets querystring and json, a name present in both resolves to the
  querystring value, and a name present in json only to the json value.
\<close>

theorem first_usable_target_wins:
  assumes "\<not> pinned a"
      and "or_targets ts0 (targets self) = pre @ t # post"
      and "invalid_targets self (pre @ t # post) = {}"
      and "\<forall>u\<in>set pre. skipped self name a req u"
      and "snd (Parser_get_value self name a req t) = Inr v"
      and "usable a v"
  shows "snd (parse_arg self name a req ts0) = validated_named name a v \<and>
         fst (parse_arg self name a req ts0) = fetch_log self name a req (pre @ [t]) \<and>
         (\<forall>e \<in> set (fst (parse_arg self name a req ts0)).
            \<exists>u \<in> set (pre @ [t]). e = Fetched u name)"
proof -
  have pe: "pinned_empty self name a req"
    using assms(1) by (simp add: pinned_empty_def)
  have eq: "parse_arg self name a req ts0 =
      (pinned_log self name a req @ fetch_log self name a req (pre @ [t]),
       validated_named name a v)"
    using pe assms(2-6) by (rule parse_arg_found)
  have pl: "pinned_log self name a req = []"
    using assms(1) by (simp add: pinned_log_def)
  have ev: "\<forall>e \<in> set (fetch_log self name a req (pre @ [t])). \<exists>u \<in> set (pre @ [t]). e = Fetched u name"
  proof
    fix e assume "e \<in> set (fetch_log self name a req (pre @ [t]))"
    then show "\<exists>u \<in> set (pre @ [t]). e = Fetched u name"
      by (rule fetch_log_events)
  qed
  have f: "fst (parse_arg self name a req ts0) = fetch_log self name a req (pre @ [t])"
    by (simp only: eq pl fst_conv append_Nil)
  have s: "snd (parse_arg self name a req ts0) = validated_named name a v"
    by (simp only: eq snd_conv)
  show ?thesis
    using ev by (simp only: f s simp_thms)
qed




theorem first_usable_target_wins_witness:
  "parse_arg (DictParser (Some [''querystring'', ''json'']) None) ''x'' plain_arg
     ((\<lambda>loc. Map.empty)(''querystring'' := [''x'' \<mapsto> PStr ''q''], ''json'' := [''x'' \<mapsto> PStr ''j'']))
     None
   = ([Fetched ''querystring'' ''x''], Inr (PStr ''q'')) \<and>
   parse_arg (DictParser (Some [''querystring'', ''json'']) None) ''x'' plain_arg
     ((\<lambda>loc. Map.empty)(''json'' := [''x'' \<mapsto> PStr ''j'']))
     None
   = ([Fetched ''querystring'' ''x'', Fetched ''json'' ''x''], Inr (PStr ''j''))"
proof -
  let ?P = "DictParser (Some [''querystring'', ''json'']) None"
  let ?both = "(\<lambda>loc. Map.empty)(''querystring'' := [''x'' \<mapsto> PStr ''q''], ''json'' := [''x'' \<mapsto> PStr ''j''])"
  let ?json = "(\<lambda>loc. Map.empty)(''json'' := [''x'' \<mapsto> PStr ''j''])"
  have np: "\<not> pinned plain_arg"
    by (simp add: pinned_def plain_arg_def)
  have ts: "or_targets None (targets ?P) = [] @ ''querystring'' # [''json'']"
           "or_targets None (targets ?P) = [''querystring''] @ ''json'' # []"
    by (simp_all add: or_targets_def sample_defs)
  have inv: "invalid_targets ?P ([] @ ''querystring'' # [''json'']) = {}"
            "invalid_targets ?P ([''querystring''] @ ''json'' # []) = {}"
    by (simp_all add: invalid_targets_def sample_defs)
  have q: "snd (Parser_get_value ?P ''x'' plain_arg ?both ''querystring'') = Inr (PStr ''q'')"
    by (simp add: Parser_get_value_def sample_defs)
  have j: "snd (Parser_get_value ?P ''x'' plain_arg ?json ''json'') = Inr (PStr ''j'')"
    by (simp add: Parser_get_value_def sample_defs)
  have sk: "\<forall>u\<in>set [''querystring'']. skipped ?P ''x'' plain_arg ?json u"
    by (simp add: skipped_def usable_def Parser_get_value_def sample_defs)
  have us: "usable plain_arg (PStr ''q'')" "usable plain_arg (PStr ''j'')"
    by (simp_all add: usable_def plain_arg_def)
  have vq: "validated_named ''x'' plain_arg (PStr ''q'') = Inr (PStr ''q'')"
    by (simp add: validated_named_def Arg_validated_def Arg_validate_def noop_def plain_arg_def)
  have vj: "validated_named ''x'' plain_arg (PStr ''j'') = Inr (PStr ''j'')"
    by (simp add: validated_named_def Arg_validated_def Arg_validate_def noop_def plain_arg_def)
  have lq: "fetch_log ?P ''x'' plain_arg ?both ([] @ [''querystring'']) = [Fetched ''querystring'' ''x'']"
    by (simp add: fetch_log_def Parser_get_value_def sample_defs)
  have lj: "fetch_log ?P ''x'' plain_arg ?json ([''querystring''] @ [''json''])
      = [Fetched ''querystring'' ''x'', Fetched ''json'' ''x'']"
    by (simp add: fetch_log_def Parser_get_value_def sample_defs)
  have none: "\<forall>u\<in>set []. skipped ?P ''x'' plain_arg ?both u"
    by simp
  note b = first_usable_target_wins [OF np ts(1) inv(1) none q us(1)]
  note o = first_usable_target_wins [OF np ts(2) inv(2) sk j us(2)]
  have 1: "parse_arg ?P ''x'' plain_arg ?both None = ([Fetched ''querystring'' ''x''], Inr (PStr ''q''))"
    using conjunct1 [OF b] conjunct1 [OF conjunct2 [OF b]] vq lq by (simp only: prod_eq_iff fst_conv snd_conv)
  have 2: "parse_arg ?P ''x'' plain_arg ?json None
       = ([Fetched ''querystring'' ''x'', Fetched ''json'' ''x''], Inr (PStr ''j''))"
    using conjunct1 [OF o] conjunct1 [OF conjunct2 [OF o]] vj lj by (simp only: prod_eq_iff fst_conv snd_conv)
  show ?thesis using 1 2 by (simp only: simp_thms)
qed

lemma parse_arg_pinned_found:
  assumes "pinned a"
      and "snd (Parser_get_value self name a req (the (target a))) = Inr v"
      and "v \<noteq> PNone"
  shows "parse_arg self name a req ts0 = (pinned_log self name a req, validated_named name a v)"
  using assms
  by (cases "Parser_get_value self name a req (the (target a))")
     (simp add: parse_arg_def pinned_log_def)

lemma pinned_log_events:
  "e \<in> set (pinned_log self name a req) \<Longrightarrow> e = Fetched (the (target a)) name"
  using get_value_log [of self name a req "the (target a)"]
  by (auto simp: pinned_log_def split: if_splits)

section \<open>The pinned target\<close>

text \<open>
  Claim C1, as the code has it. For an \<^verbatim>\<open>Arg\<close> whose pinned target is set,
  \<^verbatim>\<open>parse_arg\<close> asks the pinned target first. When that fetch returns a value other
  than \<^verbatim>\<open>None\<close>, the value is converted, validated and returned, and the only fetch
  made is the one of the pinned target: the ordered scan is skipped. When that fetch
  returns \<^verbatim>\<open>None\<close>, the ordered scan runs as it does without a pinned target: the
  first target of the list with a usable value wins, and the fetches of the scanned
  targets follow the one of the pinned target in the log.
\<close>

theorem pinned_target_asked_first:
  assumes "pinned a"
      and "snd (Parser_get_value self name a req (the (target a))) = Inr v"
  shows "(v \<noteq> PNone \<longrightarrow>
            snd (parse_arg self name a req ts0) = validated_named name a v \<and>
            fst (parse_arg self name a req ts0) = pinned_log self name a req \<and>
            (\<forall>e \<in> set (fst (parse_arg self name a req ts0)). e = Fetched (the (target a)) name)) \<and>
         (v = PNone \<longrightarrow>
            or_targets ts0 (targets self) = pre @ t # post \<longrightarrow>
            invalid_targets self (pre @ t # post) = {} \<longrightarrow>
            (\<forall>u\<in>set pre. skipped self name a req u) \<longrightarrow>
            snd (Parser_get_value self name a req t) = Inr w \<longrightarrow>
            usable a w \<longrightarrow>
              snd (parse_arg self name a req ts0) = validated_named name a w \<and>
              fst (parse_arg self name a req ts0) =
                pinned_log self name a req @ fetch_log self name a req (pre @ [t]))"
proof (intro conjI impI)
  assume nn: "v \<noteq> PNone"
  have eq: "parse_arg self name a req ts0 = (pinned_log self name a req, validated_named name a v)"
    using assms nn by (rule parse_arg_pinned_found)
  show "snd (parse_arg self name a req ts0) = validated_named name a v"
    by (simp only: eq snd_conv)
  show f: "fst (parse_arg self name a req ts0) = pinned_log self name a req"
    by (simp only: eq fst_conv)
  show "\<forall>e \<in> set (fst (parse_arg self name a req ts0)). e = Fetched (the (target a)) name"
  proof
    fix e assume "e \<in> set (fst (parse_arg self name a req ts0))"
    then have "e \<in> set (pinned_log self name a req)" by (simp only: f)
    then show "e = Fetched (the (target a)) name" by (rule pinned_log_events)
  qed
next
  assume n: "v = PNone"
     and ts: "or_targets ts0 (targets self) = pre @ t # post"
     and inv: "invalid_targets self (pre @ t # post) = {}"
     and sk: "\<forall>u\<in>set pre. skipped self name a req u"
     and g: "snd (Parser_get_value self name a req t) = Inr w"
     and us: "usable a w"
  have pe: "pinned_empty self name a req"
    using assms(2) n by (simp add: pinned_empty_def)
  have eq: "parse_arg self name a req ts0 =
      (pinned_log self name a req @ fetch_log self name a req (pre @ [t]), validated_named name a w)"
    using pe ts inv sk g us by (rule parse_arg_found)
  show "snd (parse_arg self name a req ts0) = validated_named name a w"
    by (simp only: eq snd_conv)
  show "fst (parse_arg self name a req ts0) =
          pinned_log self name a req @ fetch_log self name a req (pre @ [t])"
    by (simp only: eq fst_conv)
qed

text \<open>
  The claim as stated (only the pinned target is ever asked, also when its fetch returns
  \<^verbatim>\<open>None\<close>) fails: pinned to json, with the name in the query string only, the query
  string is fetched and its value returned.
\<close>

theorem pinned_target_only_counterexample:
  "pinned (plain_arg\<lparr>target := Some ''json''\<rparr>) \<and>
   parse_arg (DictParser (Some [''querystring'']) None) ''x'' (plain_arg\<lparr>target := Some ''json''\<rparr>)
     ((\<lambda>loc. Map.empty)(''querystring'' := [''x'' \<mapsto> PStr ''q''])) None
   = ([Fetched ''json'' ''x'', Fetched ''querystring'' ''x''], Inr (PStr ''q''))"
  by (simp add: model_defs sample_defs)


theorem pinned_target_asked_first_witness:
  "parse_arg (DictParser (Some [''querystring'']) None) ''x'' (plain_arg\<lparr>target := Some ''json''\<rparr>)
     ((\<lambda>loc. Map.empty)(''querystring'' := [''x'' \<mapsto> PStr ''q''], ''json'' := [''x'' \<mapsto> PStr ''j'']))
     None
   = ([Fetched ''json'' ''x''], Inr (PStr ''j'')) \<and>
   parse_arg (DictParser (Some [''querystring'']) None) ''x'' (plain_arg\<lparr>target := Some ''json''\<rparr>)
     ((\<lambda>loc. Map.empty)(''querystring'' := [''x'' \<mapsto> PStr ''q'']))
     None
   = ([Fetched ''json'' ''x'', Fetched ''querystring'' ''x''], Inr (PStr ''q''))"
proof -
  let ?P = "DictParser (Some [''querystring'']) None"
  let ?a = "plain_arg\<lparr>target := Some ''json''\<rparr>"
  let ?both = "(\<lambda>loc. Map.empty)(''querystring'' := [''x'' \<mapsto> PStr ''q''], ''json'' := [''x'' \<mapsto> PStr ''j''])"
  let ?qs = "(\<lambda>loc. Map.empty)(''querystring'' := [''x'' \<mapsto> PStr ''q''])"
  have p: "pinned ?a"
    by (simp add: pinned_def plain_arg_def)
  have gj: "snd (Parser_get_value ?P ''x'' ?a ?both (the (target ?a))) = Inr (PStr ''j'')"
    by (simp add: Parser_get_value_def sample_defs)
  have gn: "snd (Parser_get_value ?P ''x'' ?a ?qs (the (target ?a))) = Inr PNone"
    by (simp add: Parser_get_value_def sample_defs)
  have ts: "or_targets None (targets ?P) = [] @ ''querystring'' # []"
    by (simp add: or_targets_def sample_defs)
  have inv: "invalid_targets ?P ([] @ ''querystring'' # []) = {}"
    by (simp add: invalid_targets_def sample_defs)
  have none: "\<And>u. u \<in> set [] \<Longrightarrow> skipped ?P ''x'' ?a ?qs u"
    by simp
  have gq: "snd (Parser_get_value ?P ''x'' ?a ?qs ''querystring'') = Inr (PStr ''q'')"
    by (simp add: Parser_get_value_def sample_defs)
  have us: "usable ?a (PStr ''q'')"
    by (simp add: usable_def plain_arg_def)
  have vj: "validated_named ''x'' ?a (PStr ''j'') = Inr (PStr ''j'')"
    by (simp add: validated_named_def Arg_validated_def Arg_validate_def noop_def plain_arg_def)
  have vq: "validated_named ''x'' ?a (PStr ''q'') = Inr (PStr ''q'')"
    by (simp add: validated_named_def Arg_validated_def Arg_validate_def noop_def plain_arg_def)
  have lj: "pinned_log ?P ''x'' ?a ?both = [Fetched ''json'' ''x'']"
    by (simp add: pinned_log_def pinned_def Parser_get_value_def sample_defs)
  have lq: "pinned_log ?P ''x'' ?a ?qs @ fetch_log ?P ''x'' ?a ?qs ([] @ [''querystring''])
      = [Fetched ''json'' ''x'', Fetched ''querystring'' ''x'']"
    by (simp add: pinned_log_def pinned_def fetch_log_def Parser_get_value_def sample_defs)
  have nn: "PStr ''j'' \<noteq> PNone"
    by simp
  note found = pinned_target_asked_first [OF p gj, of None, THEN conjunct1, rule_format, OF nn]
  note scanned = pinned_target_asked_first [OF p gn, of None, THEN conjunct2, rule_format,
      OF refl ts inv none gq us]
  have 1: "parse_arg ?P ''x'' ?a ?both None = ([Fetched ''json'' ''x''], Inr (PStr ''j''))"
    using conjunct1 [OF found] conjunct1 [OF conjunct2 [OF found]] vj lj
    by (simp only: prod_eq_iff fst_conv snd_conv)
  have 2: "parse_arg ?P ''x'' ?a ?qs None
      = ([Fetched ''json'' ''x'', Fetched ''querystring'' ''x''], Inr (PStr ''q''))"
    using conjunct1 [OF scanned] conjunct2 [OF scanned] vq lq
    by (simp only: prod_eq_iff fst_conv snd_conv)
  show ?thesis using 1 2 by (simp only: simp_thms)
qed

lemma parse_arg_invalid_targets:
  assumes "pinned_empty self name a req"
      and "invalid_targets self (or_targets ts0 (targets self)) \<noteq> {}"
  shows "\<exists>e. parse_arg self name a req ts0 = (pinned_log self name a req, Inl e)"
proof (cases "pinned a")
  case True
  obtain ev where "Parser_get_value self name a req (the (target a)) = (ev, Inr PNone)"
    using True assms(1)
    by (cases "Parser_get_value self name a req (the (target a))") (auto simp: pinned_empty_def)
  then show ?thesis using True assms(2)
    by (simp add: parse_arg_def Parser_validated_targets_def pinned_log_def)
next
  case False
  then show ?thesis using assms(2)
    by (simp add: parse_arg_def Parser_validated_targets_def pinned_log_def)
qed

section \<open>Targets that are not registered\<close>

text \<open>
  Claim C2, as the code has it. The invalid targets are the requested targets minus the
  keys of \<^verbatim>\<open>TARGET_MAP\<close>, and a target registered with \<^verbatim>\<open>target_handler\<close> is one
  of the keys. When the requested list has an invalid target and the \<^verbatim>\<open>Arg\<close> has no
  pinned target, \<^verbatim>\<open>parse_arg\<close> raises before it calls any fetch function. When the
  \<^verbatim>\<open>Arg\<close> has a pinned target, that target is fetched before the list is checked;
  if the fetch returns \<^verbatim>\<open>None\<close>, \<^verbatim>\<open>parse_arg\<close> then raises, and the fetch of the
  pinned target is the only call it made. Which exception is raised is not part of this
  statement.
\<close>

theorem invalid_targets_rejected:
  assumes "invalid_targets self (or_targets ts0 (targets self)) \<noteq> {}"
  shows "(\<not> pinned a \<longrightarrow>
            (\<exists>e. snd (parse_arg self name a req ts0) = Inl e) \<and>
            fst (parse_arg self name a req ts0) = []) \<and>
         (pinned a \<longrightarrow> snd (Parser_get_value self name a req (the (target a))) = Inr PNone \<longrightarrow>
            (\<exists>e. snd (parse_arg self name a req ts0) = Inl e) \<and>
            fst (parse_arg self name a req ts0) = pinned_log self name a req) \<and>
         (pinned a \<longrightarrow> snd (Parser_get_value self name a req (the (target a))) = Inr v \<longrightarrow>
          v \<noteq> PNone \<longrightarrow>
            snd (parse_arg self name a req ts0) = validated_named name a v \<and>
            fst (parse_arg self name a req ts0) = pinned_log self name a req) \<and>
         invalid_targets (target_handler self n f) ts = set ts - insert n (dom (TARGET_MAP self))"
proof (intro conjI impI)
  assume p: "pinned a"
     and g: "snd (Parser_get_value self name a req (the (target a))) = Inr v"
     and nn: "v \<noteq> PNone"
  have eq: "parse_arg self name a req ts0 = (pinned_log self name a req, validated_named name a v)"
    using p g nn by (rule parse_arg_pinned_found)
  show "snd (parse_arg self name a req ts0) = validated_named name a v"
    by (simp only: eq snd_conv)
  show "fst (parse_arg self name a req ts0) = pinned_log self name a req"
    by (simp only: eq fst_conv)
next
  assume np: "\<not> pinned a"
  then have pe: "pinned_empty self name a req"
    by (simp add: pinned_empty_def)
  from parse_arg_invalid_targets [OF pe assms]
  obtain e where eq: "parse_arg self name a req ts0 = (pinned_log self name a req, Inl e)" ..
  show "\<exists>e. snd (parse_arg self name a req ts0) = Inl e"
    using eq by simp
  show "fst (parse_arg self name a req ts0) = []"
    using eq np by (simp add: pinned_log_def)
next
  assume p: "pinned a"
     and g: "snd (Parser_get_value self name a req (the (target a))) = Inr PNone"
  then have pe: "pinned_empty self name a req"
    by (simp add: pinned_empty_def)
  from parse_arg_invalid_targets [OF pe assms]
  obtain e where eq: "parse_arg self name a req ts0 = (pinned_log self name a req, Inl e)" ..
  show "\<exists>e. snd (parse_arg self name a req ts0) = Inl e"
    using eq by simp
  show "fst (parse_arg self name a req ts0) = pinned_log self name a req"
    using eq by simp
next
  show "invalid_targets (target_handler self n f) ts = set ts - insert n (dom (TARGET_MAP self))"
    by (simp add: invalid_targets_def target_handler_def)
qed

theorem invalid_targets_rejected_witness:
  "invalid_targets (DictParser None None) [''bogus''] = {''bogus''} \<and>
   (\<exists>e. parse_arg (DictParser None None) ''x'' plain_arg
              ((\<lambda>loc. Map.empty)(''json'' := [''x'' \<mapsto> PStr ''j''])) (Some [''bogus'']) = ([], Inl e)) \<and>
   (\<exists>e. parse_arg (DictParser None None) ''x'' (plain_arg\<lparr>target := Some ''form''\<rparr>)
              ((\<lambda>loc. Map.empty)(''json'' := [''x'' \<mapsto> PStr ''j''])) (Some [''bogus''])
           = ([Fetched ''form'' ''x''], Inl e)) \<and>
   parse_arg (DictParser None None) ''x'' (plain_arg\<lparr>target := Some ''json''\<rparr>)
      ((\<lambda>loc. Map.empty)(''json'' := [''x'' \<mapsto> PStr ''j''])) (Some [''bogus''])
     = ([Fetched ''json'' ''x''], Inr (PStr ''j'')) \<and>
   invalid_targets (target_handler (DictParser None None) ''bogus'' (lookup ''data'')) [''bogus''] = {}"
proof -
  let ?P = "DictParser None None :: request parser"
  let ?R = "(\<lambda>loc. Map.empty)(''json'' := [''x'' \<mapsto> PStr ''j''])"
  let ?f = "plain_arg\<lparr>target := Some ''form''\<rparr>"
  let ?j = "plain_arg\<lparr>target := Some ''json''\<rparr>"
  have inv: "invalid_targets ?P [''bogus''] = {''bogus''}"
    by (simp add: invalid_targets_def sample_defs)
  have h: "invalid_targets ?P (or_targets (Some [''bogus'']) (targets ?P)) \<noteq> {}"
    by (simp add: invalid_targets_def or_targets_def sample_defs)
  have np: "\<not> pinned plain_arg" and pf: "pinned ?f" and pj: "pinned ?j"
    by (simp_all add: pinned_def plain_arg_def)
  have gf: "snd (Parser_get_value ?P ''x'' ?f ?R (the (target ?f))) = Inr PNone"
    by (simp add: Parser_get_value_def sample_defs)
  have gj: "snd (Parser_get_value ?P ''x'' ?j ?R (the (target ?j))) = Inr (PStr ''j'')"
    by (simp add: Parser_get_value_def sample_defs)
  have nn: "PStr ''j'' \<noteq> PNone"
    by simp
  have lf: "pinned_log ?P ''x'' ?f ?R = [Fetched ''form'' ''x'']"
    by (simp add: pinned_log_def pinned_def Parser_get_value_def sample_defs)
  have lj: "pinned_log ?P ''x'' ?j ?R = [Fetched ''json'' ''x'']"
    by (simp add: pinned_log_def pinned_def Parser_get_value_def sample_defs)
  have vj: "validated_named ''x'' ?j (PStr ''j'') = Inr (PStr ''j'')"
    by (simp add: validated_named_def Arg_validated_def Arg_validate_def noop_def plain_arg_def)
  note r0 = invalid_targets_rejected [OF h, of plain_arg "''x''" ?R, THEN conjunct1, rule_format, OF np]
  note r1 = invalid_targets_rejected [OF h, of ?f "''x''" ?R, THEN conjunct2, THEN conjunct1,
      rule_format, OF pf gf]
  note r2 = invalid_targets_rejected [OF h, of ?j "''x''" ?R, THEN conjunct2, THEN conjunct2,
      THEN conjunct1, rule_format, OF pj gj nn]
  note r3 = invalid_targets_rejected [OF h, THEN conjunct2, THEN conjunct2, THEN conjunct2,
      of "''bogus''" "lookup ''data''" "[''bogus'']"]
  have 1: "\<exists>e. parse_arg ?P ''x'' plain_arg ?R (Some [''bogus'']) = ([], Inl e)"
    using r0 by (auto simp: prod_eq_iff)
  have 2: "\<exists>e. parse_arg ?P ''x'' ?f ?R (Some [''bogus'']) = ([Fetched ''form'' ''x''], Inl e)"
    using r1 lf by (auto simp: prod_eq_iff)
  have 3: "parse_arg ?P ''x'' ?j ?R (Some [''bogus'']) = ([Fetched ''json'' ''x''], Inr (PStr ''j''))"
    using r2 lj vj by (simp only: prod_eq_iff fst_conv snd_conv simp_thms)
  have 4: "invalid_targets (target_handler ?P ''bogus'' (lookup ''data'')) [''bogus''] = {}"
    using r3 by simp
  show ?thesis
    using inv 1 2 3 4 by (simp only: simp_thms)
qed

text \<open>
  The claim as stated (every request for an unregistered target fails, before any fetch)
  does not hold for an \<^verbatim>\<open>Arg\<close> with a pinned target: pinned to json, with the name in
  the JSON body, the request for the target bogus fetches from json and returns its value.
\<close>

theorem invalid_targets_checked_first_counterexample:
  "invalid_targets (DictParser None None) [''bogus''] = {''bogus''} \<and>
   parse_arg (DictParser None None) ''x'' (plain_arg\<lparr>target := Some ''json''\<rparr>)
     ((\<lambda>loc. Map.empty)(''json'' := [''x'' \<mapsto> PStr ''j''])) (Some [''bogus''])
   = ([Fetched ''json'' ''x''], Inr (PStr ''j''))"
  by (simp add: model_defs sample_defs)

lemma parse_arg_not_found:
  assumes "pinned_empty self name a req"
      and "invalid_targets self (or_targets ts0 (targets self)) = {}"
      and "\<forall>u\<in>set (or_targets ts0 (targets self)). skipped self name a req u"
      and "or_targets ts0 (targets self) = [] \<or>
           snd (Parser_get_value self name a req (last (or_targets ts0 (targets self)))) = Inr PNone"
  shows "parse_arg self name a req ts0 =
           after (pinned_log self name a req @ fetch_log self name a req (or_targets ts0 (targets self)))
             (after_loop self name a req PNone)"
proof -
  let ?ts = "or_targets ts0 (targets self)"
  have s: "scan self name a req PNone ?ts =
             after (fetch_log self name a req ?ts) (after_loop self name a req PNone)"
  proof (cases "?ts = []")
    case True
    then show ?thesis by (simp add: fetch_log_def after_def)
  next
    case False
    then have l: "snd (Parser_get_value self name a req (last ?ts)) = Inr PNone"
      using assms(4) by simp
    have nu: "\<not> usable a PNone"
      by (simp add: usable_def)
    have b: "\<forall>u\<in>set (butlast ?ts). skipped self name a req u"
      using assms(3) by (auto dest: in_set_butlastD)
    have "scan self name a req PNone (butlast ?ts @ [last ?ts]) =
            after (fetch_log self name a req (butlast ?ts @ [last ?ts])) (after_loop self name a req PNone)"
      using b l nu by (rule scan_skipped)
    then show ?thesis using False by simp
  qed
  show ?thesis
  proof (cases "pinned a")
    case True
    obtain ev where "Parser_get_value self name a req (the (target a)) = (ev, Inr PNone)"
      using True assms(1)
      by (cases "Parser_get_value self name a req (the (target a))") (auto simp: pinned_empty_def)
    then show ?thesis using True assms(2) s
      by (simp add: parse_arg_def Parser_validated_targets_def pinned_log_def after_def)
  next
    case False
    then show ?thesis using assms(2) s
      by (simp add: parse_arg_def Parser_validated_targets_def pinned_log_def after_def)
  qed
qed

section \<open>No usable value at any target\<close>

text \<open>
  Claim C4 says that, when no target yields a usable value, the final value is the
  default of the \<^verbatim>\<open>Arg\<close> if that is not \<^verbatim>\<open>None\<close> and the result of the fallback
  otherwise, also when the last scanned target returned an empty or non-list value for an
  \<^verbatim>\<open>Arg\<close> with \<^verbatim>\<open>multiple\<close>. The code does not do that: the test
  \<^verbatim>\<open>if value is None\<close> after the loop reads what the last fetch left in \<^verbatim>\<open>value\<close>.
  With \<^verbatim>\<open>Arg(multiple=list, default=['d'])\<close> and the query string, the only target,
  returning the empty list, \<^verbatim>\<open>parse_arg\<close> returns the empty list and not the
  default; when a target returning \<^verbatim>\<open>None\<close> follows, the default is returned. With a
  required \<^verbatim>\<open>Arg(multiple=list)\<close> whose validator rejects everything and the last
  target returning a string, the string is returned as it was fetched.
\<close>

theorem stale_value_instead_of_default:
  "Arg None (PList [PStr ''d'']) False None (Some CList) False None
     = Inr (plain_arg\<lparr>multiple := Some CList, default_value := PList [PStr ''d'']\<rparr>) \<and>
   parse_arg (DictParser (Some [''querystring'']) None) ''x''
     (plain_arg\<lparr>multiple := Some CList, default_value := PList [PStr ''d'']\<rparr>)
     ((\<lambda>loc. Map.empty)(''querystring'' := [''x'' \<mapsto> PList []])) None
   = ([Fetched ''querystring'' ''x''], Inr (PList [])) \<and>
   parse_arg (DictParser (Some [''querystring'', ''json'']) None) ''x''
     (plain_arg\<lparr>multiple := Some CList, default_value := PList [PStr ''d'']\<rparr>)
     ((\<lambda>loc. Map.empty)(''querystring'' := [''x'' \<mapsto> PList []])) None
   = ([Fetched ''querystring'' ''x'', Fetched ''json'' ''x''], Inr (PList [PStr ''d''])) \<and>
   parse_arg (DictParser (Some [''json'']) None) ''x''
     (plain_arg\<lparr>multiple := Some CList, default_value := PList [], required := True,
        validate := (\<lambda>x. Inr (PBool False))\<rparr>)
     ((\<lambda>loc. Map.empty)(''json'' := [''x'' \<mapsto> PStr ''abc''])) None
   = ([Fetched ''json'' ''x''], Inr (PStr ''abc''))"
  by (simp add: model_defs sample_defs Arg_def)

lemma all_None_skipped:
  assumes "\<forall>u\<in>set ts. snd (Parser_get_value self name a req u) = Inr PNone"
  shows "(\<forall>u\<in>set ts. skipped self name a req u) \<and>
         (ts = [] \<or> snd (Parser_get_value self name a req (last ts)) = Inr PNone)"
proof (cases "ts = []")
  case True
  then show ?thesis by simp
next
  case False
  then have "last ts \<in> set ts" by simp
  then show ?thesis using assms by (auto simp: skipped_def usable_def)
qed

lemma Arg_no_default_falsy:
  assumes "Arg c PNone rq vd m am tg = Inr a"
  shows "\<not> truthy (default_value a)"
  using assms by (auto simp: Arg_def split: if_splits option.splits container.splits)

lemma Arg_required:
  assumes "Arg c d True vd m am tg = Inr a"
  shows "required a"
  using assms by (auto simp: Arg_def split: if_splits)

lemma after_loop_missing:
  assumes "required a"
  shows "default_value a \<noteq> PNone \<Longrightarrow> \<not> truthy (default_value a) \<Longrightarrow>
           snd (after_loop self name a req PNone) = Inl (MissingArg name)"
    and "default_value a = PNone \<Longrightarrow> fallback self req name a = Inr w \<Longrightarrow> \<not> truthy w \<Longrightarrow>
           snd (after_loop self name a req PNone) = Inl (MissingArg name)"
  using assms by (simp_all add: after_loop_def missing_check_def)

text \<open>
  Claim C8. For an \<^verbatim>\<open>Arg\<close> built with \<^verbatim>\<open>required=True\<close> and no default, when the
  fetch of every target returns \<^verbatim>\<open>None\<close> and so does the fallback, \<^verbatim>\<open>parse_arg\<close>
  raises \<^verbatim>\<open>MissingArg\<close> with the name of the argument. More generally, whenever the
  step after the loop runs (every target was skipped and the last fetch returned
  \<^verbatim>\<open>None\<close>) and the value it produces, the default if that is not \<^verbatim>\<open>None\<close> and the
  result of the fallback otherwise, is falsy, a required \<^verbatim>\<open>Arg\<close> makes \<^verbatim>\<open>parse_arg\<close>
  raise \<^verbatim>\<open>MissingArg\<close> with the name.
\<close>

theorem required_missing_raises:
  assumes "required a"
      and "pinned_empty self name a req"
      and "invalid_targets self (or_targets ts0 (targets self)) = {}"
  shows "((\<forall>u\<in>set (or_targets ts0 (targets self)).
             snd (Parser_get_value self name a req u) = Inr PNone) \<longrightarrow>
          Arg c PNone True vd m am tg = Inr a \<longrightarrow>
          fallback self req name a = Inr PNone \<longrightarrow>
            snd (parse_arg self name a req ts0) = Inl (MissingArg name)) \<and>
         ((\<forall>u\<in>set (or_targets ts0 (targets self)). skipped self name a req u) \<longrightarrow>
          (or_targets ts0 (targets self) = [] \<or>
           snd (Parser_get_value self name a req (last (or_targets ts0 (targets self)))) = Inr PNone) \<longrightarrow>
            (default_value a \<noteq> PNone \<longrightarrow> \<not> truthy (default_value a) \<longrightarrow>
               snd (parse_arg self name a req ts0) = Inl (MissingArg name)) \<and>
            (default_value a = PNone \<longrightarrow> fallback self req name a = Inr w \<longrightarrow> \<not> truthy w \<longrightarrow>
               snd (parse_arg self name a req ts0) = Inl (MissingArg name)))"
proof -
  let ?ts = "or_targets ts0 (targets self)"
  have general: "snd (parse_arg self name a req ts0) = snd (after_loop self name a req PNone)"
    if "\<forall>u\<in>set ?ts. skipped self name a req u"
      and "?ts = [] \<or> snd (Parser_get_value self name a req (last ?ts)) = Inr PNone"
    using parse_arg_not_found [OF assms(2,3) that] by (simp add: after_def)
  have part2: "snd (parse_arg self name a req ts0) = Inl (MissingArg name)"
    if "\<forall>u\<in>set ?ts. skipped self name a req u"
      and "?ts = [] \<or> snd (Parser_get_value self name a req (last ?ts)) = Inr PNone"
      and "default_value a \<noteq> PNone" and "\<not> truthy (default_value a)"
    using general [OF that(1,2)] after_loop_missing(1) [OF assms(1) that(3,4)] by simp
  have part3: "snd (parse_arg self name a req ts0) = Inl (MissingArg name)"
    if "\<forall>u\<in>set ?ts. skipped self name a req u"
      and "?ts = [] \<or> snd (Parser_get_value self name a req (last ?ts)) = Inr PNone"
      and "default_value a = PNone" and "fallback self req name a = Inr w" and "\<not> truthy w"
    using general [OF that(1,2)] after_loop_missing(2) [OF assms(1) that(3,4,5)] by simp
  have part1: "snd (parse_arg self name a req ts0) = Inl (MissingArg name)"
    if n: "\<forall>u\<in>set ?ts. snd (Parser_get_value self name a req u) = Inr PNone"
      and b: "Arg c PNone True vd m am tg = Inr a"
      and f: "fallback self req name a = Inr PNone"
  proof -
    note sk = all_None_skipped [OF n]
    have g: "snd (parse_arg self name a req ts0) = snd (after_loop self name a req PNone)"
      using general sk by blast
    have "\<not> truthy (default_value a)"
      using b by (rule Arg_no_default_falsy)
    then have "snd (after_loop self name a req PNone) = Inl (MissingArg name)"
      using assms(1) f by (simp add: after_loop_def missing_check_def)
    with g show ?thesis by simp
  qed
  show ?thesis
    using part1 part2 part3 by blast
qed

theorem required_missing_raises_witness:
  "Arg None PNone True None None False None = Inr (plain_arg\<lparr>required := True\<rparr>) \<and>
   snd (parse_arg (DictParser None None) ''x'' (plain_arg\<lparr>required := True\<rparr>) no_request None)
     = Inl (MissingArg ''x'') \<and>
   snd (parse_arg (DictParser None None) ''x''
          (plain_arg\<lparr>required := True, default_value := PInt 0\<rparr>) no_request None)
     = Inl (MissingArg ''x'') \<and>
   snd (parse_arg ((DictParser None None)\<lparr>fallback := (\<lambda>req name a. Inr (PStr ''''))\<rparr>) ''x''
          (plain_arg\<lparr>required := True\<rparr>) no_request None)
     = Inl (MissingArg ''x'')"
proof -
  let ?P = "DictParser None None"
  let ?F = "(DictParser None None)\<lparr>fallback := (\<lambda>req name a. Inr (PStr ''''))\<rparr>"
  let ?a = "plain_arg\<lparr>required := True\<rparr>"
  let ?z = "plain_arg\<lparr>required := True, default_value := PInt 0\<rparr>"
  have b: "Arg None PNone True None None False None = Inr ?a"
    by (simp add: Arg_def plain_arg_def)
  have rq: "required ?a" "required ?z"
    by (simp_all add: plain_arg_def)
  have pe: "pinned_empty ?P ''x'' ?a no_request" "pinned_empty ?P ''x'' ?z no_request"
    by (simp_all add: pinned_empty_def pinned_def plain_arg_def)
  have inv: "invalid_targets ?P (or_targets None (targets ?P)) = {}"
    by (simp add: invalid_targets_def or_targets_def sample_defs)
  have n: "\<forall>u\<in>set (or_targets None (targets ?P)).
             snd (Parser_get_value ?P ''x'' ?a no_request u) = Inr PNone"
    by (simp add: or_targets_def Parser_get_value_def sample_defs)
  have sk: "\<forall>u\<in>set (or_targets None (targets ?P)). skipped ?P ''x'' ?z no_request u"
    by (simp add: or_targets_def skipped_def usable_def Parser_get_value_def sample_defs)
  have l: "or_targets None (targets ?P) = [] \<or>
      snd (Parser_get_value ?P ''x'' ?z no_request (last (or_targets None (targets ?P)))) = Inr PNone"
    by (simp add: or_targets_def Parser_get_value_def sample_defs)
  have f: "fallback ?P no_request ''x'' ?a = Inr PNone"
    by (simp add: sample_defs)
  have d: "default_value ?z \<noteq> PNone" "\<not> truthy (default_value ?z)"
    by (simp_all add: plain_arg_def)
  have 1: "snd (parse_arg ?P ''x'' ?a no_request None) = Inl (MissingArg ''x'')"
    using required_missing_raises [OF rq(1) pe(1) inv, THEN conjunct1, rule_format, OF _ b f] n
    by blast
  have 2: "snd (parse_arg ?P ''x'' ?z no_request None) = Inl (MissingArg ''x'')"
    using required_missing_raises [OF rq(2) pe(2) inv, THEN conjunct2, rule_format, THEN conjunct1,
        rule_format, OF _ l d] sk
    by blast
  have peF: "pinned_empty ?F ''x'' ?a no_request"
    by (simp add: pinned_empty_def pinned_def plain_arg_def)
  have invF: "invalid_targets ?F (or_targets None (targets ?F)) = {}"
    by (simp add: invalid_targets_def or_targets_def sample_defs)
  have skF: "\<forall>u\<in>set (or_targets None (targets ?F)). skipped ?F ''x'' ?a no_request u"
    by (simp add: or_targets_def skipped_def usable_def Parser_get_value_def sample_defs)
  have lF: "or_targets None (targets ?F) = [] \<or>
      snd (Parser_get_value ?F ''x'' ?a no_request (last (or_targets None (targets ?F)))) = Inr PNone"
    by (simp add: or_targets_def Parser_get_value_def sample_defs)
  have dF: "default_value ?a = PNone"
    by (simp add: plain_arg_def)
  have fF: "fallback ?F no_request ''x'' ?a = Inr (PStr '''')"
    by simp
  have tF: "\<not> truthy (PStr '''')"
    by simp
  have 3: "snd (parse_arg ?F ''x'' ?a no_request None) = Inl (MissingArg ''x'')"
    using required_missing_raises [OF rq(1) peF invF, THEN conjunct2, rule_format, THEN conjunct2,
        rule_format, OF _ lF dF fF tF] skF
    by blast
  show ?thesis using b 1 2 3 by (simp only: simp_thms)
qed

section \<open>Where the errors of parse_arg come from\<close>

lemma parse_arg_found_at:
  assumes "found_at self name a req ts0 pre t post v"
  shows "snd (parse_arg self name a req ts0) = validated_named name a v"
proof -
  from assms have g: "snd (Parser_get_value self name a req t) = Inr v"
    by (simp add: found_at_def)
  from assms consider
      (pin) "pinned a" "t = the (target a)" "v \<noteq> PNone"
    | (scan) "pinned_empty self name a req" "or_targets ts0 (targets self) = pre @ t # post"
        "invalid_targets self (pre @ t # post) = {}" "\<forall>u\<in>set pre. skipped self name a req u"
        "usable a v"
    by (auto simp: found_at_def list_all_iff)
  then show ?thesis
  proof cases
    case pin
    then have "snd (Parser_get_value self name a req (the (target a))) = Inr v"
      using g by simp
    from parse_arg_pinned_found [OF pin(1) this pin(3)] show ?thesis by simp
  next
    case scan
    from parse_arg_found [OF scan(1-4) g scan(5)] show ?thesis by simp
  qed
qed

lemma Arg_validate_errors:
  "Arg_validate a v = Inl e \<Longrightarrow> internal_error e"
  by (auto simp: Arg_validate_def split: sum.splits if_splits)

lemma validate_each_errors:
  "validate_each a xs = Inl e \<Longrightarrow> internal_error e"
  by (induction xs) (auto split: sum.splits dest: Arg_validate_errors)

lemma Arg_validated_errors:
  assumes "Arg_validated a v = Inl e"
  shows "internal_error e \<or> (\<exists>m. e = TypeError m)"
proof (cases "multiple a")
  case None
  then show ?thesis using assms by (auto simp: Arg_validated_def dest: Arg_validate_errors)
next
  case (Some c)
  show ?thesis
  proof (cases "isinstance_list v")
    case False
    then show ?thesis using assms Some by (auto simp: Arg_validated_def dest: Arg_validate_errors)
  next
    case True
    then show ?thesis using assms Some
      by (cases c)
         (auto simp: Arg_validated_def py_list_def py_set_def split: sum.splits if_splits
               dest: validate_each_errors)
  qed
qed

lemma validated_named_errors:
  assumes "validated_named name a v = Inl e"
  shows "(\<exists>c. e = ConversionError c name) \<or> (\<exists>c. e = ValidationError c name) \<or>
         e = InvalidArg name \<or> (\<exists>m. e = TypeError m)"
proof (cases "Arg_validated a v")
  case (Inr r)
  then show ?thesis using assms by (simp add: validated_named_def)
next
  case (Inl x)
  from Arg_validated_errors [OF Inl] show ?thesis
    using assms Inl by (cases x) (auto simp: validated_named_def)
qed

lemma validated_named_not_missing:
  "validated_named name a v \<noteq> Inl (MissingArg n)"
  using validated_named_errors [of name a v "MissingArg n"] by auto

lemma validated_named_not_internal:
  "validated_named name a v = Inl e \<Longrightarrow> \<not> internal_error e"
  using validated_named_errors [of name a v e] by auto

lemma after_loop_MissingArg:
  assumes "snd (after_loop self name a req v0) = Inl (MissingArg n)"
      and "fallback self req name a \<noteq> Inl (MissingArg n)"
  shows "n = name \<and> required a \<and> v0 = PNone"
  using assms
  by (auto simp: after_loop_def missing_check_def split: if_splits sum.splits)

lemma scan_MissingArg:
  assumes "snd (scan self name a req v0 ts) = Inl (MissingArg n)"
      and "\<forall>u\<in>set ts. snd (Parser_get_value self name a req u) \<noteq> Inl (MissingArg n)"
      and "fallback self req name a \<noteq> Inl (MissingArg n)"
  shows "n = name \<and> required a \<and> (\<forall>u\<in>set ts. skipped self name a req u)"
  using assms
proof (induction ts arbitrary: v0)
  case Nil
  then show ?case using after_loop_MissingArg [of self name a req v0 n] by simp
next
  case (Cons u ts)
  obtain ev r where g: "Parser_get_value self name a req u = (ev, r)"
    by (cases "Parser_get_value self name a req u")
  show ?case
  proof (cases r)
    case (Inl e)
    then show ?thesis using Cons.prems g by simp
  next
    case (Inr w)
    show ?thesis
    proof (cases "usable a w")
      case True
      then have "snd (scan self name a req v0 (u # ts)) = validated_named name a w"
        using g Inr by (auto simp: usable_def)
      then show ?thesis using Cons.prems(1) validated_named_not_missing by metis
    next
      case False
      then have "snd (scan self name a req v0 (u # ts)) = snd (scan self name a req w ts)"
        using g Inr by (auto simp: usable_def after_def)
      then have "n = name \<and> required a \<and> (\<forall>u\<in>set ts. skipped self name a req u)"
        using Cons.IH [of w] Cons.prems by simp
      moreover have "skipped self name a req u"
        using False g Inr by (simp add: skipped_def)
      ultimately show ?thesis by simp
    qed
  qed
qed

lemma parse_arg_MissingArg:
  assumes "snd (parse_arg self name a req ts0) = Inl (MissingArg n)"
      and "\<forall>u. snd (Parser_get_value self name a req u) \<noteq> Inl (MissingArg n)"
      and "fallback self req name a \<noteq> Inl (MissingArg n)"
  shows "n = name \<and> required a \<and> pinned_empty self name a req \<and>
         (\<forall>u\<in>set (or_targets ts0 (targets self)). skipped self name a req u)"
proof -
  let ?ts = "or_targets ts0 (targets self)"
  have rest: "n = name \<and> required a \<and> (\<forall>u\<in>set ?ts. skipped self name a req u)"
    if "(case Parser_validated_targets self ?ts of
          Inl e \<Rightarrow> Inl e | Inr ts \<Rightarrow> snd (scan self name a req v0 ts)) = Inl (MissingArg n)" for v0
  proof (cases "Parser_validated_targets self ?ts")
    case (Inl e)
    then show ?thesis using that by (auto simp: Parser_validated_targets_def split: if_splits)
  next
    case (Inr ts)
    then have "ts = ?ts" by (auto simp: Parser_validated_targets_def split: if_splits)
    then show ?thesis using that Inr scan_MissingArg [of self name a req v0 ?ts n] assms(2,3)
      by simp
  qed
  show ?thesis
  proof (cases "pinned a")
    case False
    then have "(case Parser_validated_targets self ?ts of
          Inl e \<Rightarrow> Inl e | Inr ts \<Rightarrow> snd (scan self name a req PNone ts)) = Inl (MissingArg n)"
      using assms(1) by (simp add: parse_arg_def after_def split: sum.splits)
    from rest [OF this] show ?thesis using False by (simp add: pinned_empty_def)
  next
    case True
    obtain ev r where g: "Parser_get_value self name a req (the (target a)) = (ev, r)"
      by (cases "Parser_get_value self name a req (the (target a))")
    show ?thesis
    proof (cases r)
      case (Inl e)
      then have "snd (parse_arg self name a req ts0) = Inl e"
        using g True by (simp add: parse_arg_def)
      moreover have "snd (Parser_get_value self name a req (the (target a))) = Inl e"
        using g Inl by simp
      ultimately have False using assms(1,2) by (metis sum.inject(1))
      then show ?thesis ..
    next
      case (Inr w)
      show ?thesis
      proof (cases "w = PNone")
        case False
        then have "snd (parse_arg self name a req ts0) = validated_named name a w"
          using g Inr True by (simp add: parse_arg_def)
        then show ?thesis using assms(1) validated_named_not_missing by metis
      next
        case w: True
        then have "(case Parser_validated_targets self ?ts of
          Inl e \<Rightarrow> Inl e | Inr ts \<Rightarrow> snd (scan self name a req PNone ts)) = Inl (MissingArg n)"
          using assms(1) g Inr True by (simp add: parse_arg_def after_def split: sum.splits)
        from rest [OF this] show ?thesis using True g Inr w by (simp add: pinned_empty_def)
      qed
    qed
  qed
qed

section \<open>A falsy value found at a target\<close>

text \<open>
  Claim C9. The check of \<^verbatim>\<open>required\<close> against a falsy value does not apply to a value
  found at a target. For a required \<^verbatim>\<open>Arg\<close> without \<^verbatim>\<open>multiple\<close>, when a target
  yields a value that is not \<^verbatim>\<open>None\<close> but falsy (the empty string, 0), \<^verbatim>\<open>parse_arg\<close>
  gives what converting and validating that value gives, returns the converted value when
  the validator accepts it, and never raises \<^verbatim>\<open>MissingArg\<close>. Conversely, when
  \<^verbatim>\<open>parse_arg\<close> raises \<^verbatim>\<open>MissingArg\<close> (and no fetch function and no fallback raised
  it themselves), the \<^verbatim>\<open>Arg\<close> is required, the error names the argument, and no
  target yielded a usable value: the pinned target, if any, returned \<^verbatim>\<open>None\<close> and every
  scanned target was skipped.
\<close>

theorem found_falsy_value_is_returned:
  "(required a \<longrightarrow> multiple a = None \<longrightarrow> found_at self name a req ts0 pre t post v \<longrightarrow>
    \<not> truthy v \<longrightarrow>
      snd (parse_arg self name a req ts0) = validated_named name a v \<and>
      (\<forall>m. snd (parse_arg self name a req ts0) \<noteq> Inl (MissingArg m)) \<and>
      (\<forall>c r. convert a v = Inr c \<longrightarrow> validate a c = Inr r \<longrightarrow> truthy r \<longrightarrow>
         snd (parse_arg self name a req ts0) = Inr c)) \<and>
   (snd (parse_arg self name a req ts0) = Inl (MissingArg n) \<longrightarrow>
    (\<forall>u. snd (Parser_get_value self name a req u) \<noteq> Inl (MissingArg n)) \<longrightarrow>
    fallback self req name a \<noteq> Inl (MissingArg n) \<longrightarrow>
      n = name \<and> required a \<and> pinned_empty self name a req \<and>
      (\<forall>u\<in>set (or_targets ts0 (targets self)). skipped self name a req u))"
proof (intro conjI impI)
  assume m: "multiple a = None" and f: "found_at self name a req ts0 pre t post v"
  show eq: "snd (parse_arg self name a req ts0) = validated_named name a v"
    using f by (rule parse_arg_found_at)
  show "\<forall>m. snd (parse_arg self name a req ts0) \<noteq> Inl (MissingArg m)"
    by (simp only: eq) (simp add: validated_named_not_missing)
  show "\<forall>c r. convert a v = Inr c \<longrightarrow> validate a c = Inr r \<longrightarrow> truthy r \<longrightarrow>
         snd (parse_arg self name a req ts0) = Inr c"
    by (simp only: eq) (simp add: validated_named_def Arg_validated_def Arg_validate_def m)
next
  assume "snd (parse_arg self name a req ts0) = Inl (MissingArg n)"
     and "\<forall>u. snd (Parser_get_value self name a req u) \<noteq> Inl (MissingArg n)"
     and "fallback self req name a \<noteq> Inl (MissingArg n)"
  then have r: "n = name \<and> required a \<and> pinned_empty self name a req \<and>
      (\<forall>u\<in>set (or_targets ts0 (targets self)). skipped self name a req u)"
    by (rule parse_arg_MissingArg)
  from r show "n = name" by simp
  from r show "required a" by simp
  from r show "pinned_empty self name a req" by simp
  from r show "\<forall>u\<in>set (or_targets ts0 (targets self)). skipped self name a req u" by simp
qed

lemma DictParser_fetch_returns:
  "\<exists>w. snd (Parser_get_value (DictParser ts eh) name a req u) = Inr w"
  by (auto simp: Parser_get_value_def sample_defs split: option.splits)

theorem found_falsy_value_is_returned_witness:
  "snd (parse_arg (DictParser None None) ''x'' (plain_arg\<lparr>required := True\<rparr>)
          ((\<lambda>loc. Map.empty)(''form'' := [''x'' \<mapsto> PStr '''']))  None) = Inr (PStr '''') \<and>
   snd (parse_arg (DictParser None None) ''x'' (plain_arg\<lparr>required := True\<rparr>)
          ((\<lambda>loc. Map.empty)(''form'' := [''x'' \<mapsto> PInt 0]))  None) = Inr (PInt 0) \<and>
   snd (parse_arg (DictParser None None) ''x'' (plain_arg\<lparr>required := True\<rparr>) no_request None)
     = Inl (MissingArg ''x'') \<and>
   skipped (DictParser None None) ''x'' (plain_arg\<lparr>required := True\<rparr>) no_request ''querystring'' \<and>
   skipped (DictParser None None) ''x'' (plain_arg\<lparr>required := True\<rparr>) no_request ''form'' \<and>
   skipped (DictParser None None) ''x'' (plain_arg\<lparr>required := True\<rparr>) no_request ''json''"
proof -
  let ?P = "DictParser None None"
  let ?a = "plain_arg\<lparr>required := True\<rparr>"
  let ?e = "(\<lambda>loc. Map.empty)(''form'' := [''x'' \<mapsto> PStr ''''])"
  let ?z = "(\<lambda>loc. Map.empty)(''form'' := [''x'' \<mapsto> PInt 0])"
  have rq: "required ?a" and m: "multiple ?a = None"
    by (simp_all add: plain_arg_def)
  have fe: "found_at ?P ''x'' ?a ?e None [''querystring''] ''form'' [''json''] (PStr '''')"
    by (simp add: found_at_def pinned_empty_def pinned_def or_targets_def invalid_targets_def
        skipped_def usable_def Parser_get_value_def sample_defs)
  have fz: "found_at ?P ''x'' ?a ?z None [''querystring''] ''form'' [''json''] (PInt 0)"
    by (simp add: found_at_def pinned_empty_def pinned_def or_targets_def invalid_targets_def
        skipped_def usable_def Parser_get_value_def sample_defs)
  have fl: "\<not> truthy (PStr '''')" "\<not> truthy (PInt 0)"
    by simp_all
  have ce: "convert ?a (PStr '''') = Inr (PStr '''')" "convert ?a (PInt 0) = Inr (PInt 0)"
    by (simp_all add: plain_arg_def noop_def)
  have ve: "validate ?a (PStr '''') = Inr (PBool True)" "validate ?a (PInt 0) = Inr (PBool True)"
    by (simp_all add: plain_arg_def)
  have tr: "truthy (PBool True)"
    by simp
  note e = found_falsy_value_is_returned [THEN conjunct1, rule_format, OF rq m fe fl(1)]
  note z = found_falsy_value_is_returned [THEN conjunct1, rule_format, OF rq m fz fl(2)]
  have 1: "snd (parse_arg ?P ''x'' ?a ?e None) = Inr (PStr '''')"
    using e [THEN conjunct2, THEN conjunct2, rule_format, OF ce(1) ve(1) tr] .
  have 2: "snd (parse_arg ?P ''x'' ?a ?z None) = Inr (PInt 0)"
    using z [THEN conjunct2, THEN conjunct2, rule_format, OF ce(2) ve(2) tr] .
  have 3: "snd (parse_arg ?P ''x'' ?a no_request None) = Inl (MissingArg ''x'')"
    by (simp add: model_defs sample_defs)
  have nr: "\<And>u. snd (Parser_get_value ?P ''x'' ?a no_request u) \<noteq> Inl (MissingArg ''x'')"
    using DictParser_fetch_returns [of None None "''x''" ?a no_request] by (metis sum.distinct(1))
  have nf: "fallback ?P no_request ''x'' ?a \<noteq> Inl (MissingArg ''x'')"
    by (simp add: sample_defs)
  have ts: "or_targets None (targets ?P) = [''querystring'', ''form'', ''json'']"
    by (simp add: or_targets_def sample_defs)
  note o = found_falsy_value_is_returned [THEN conjunct2, rule_format, OF 3 nr nf]
  have 4: "\<forall>u\<in>set [''querystring'', ''form'', ''json'']. skipped ?P ''x'' ?a no_request u"
    using o [THEN conjunct2, THEN conjunct2, THEN conjunct2] by (simp only: ts)
  have 5: "skipped ?P ''x'' ?a no_request ''querystring'' \<and> skipped ?P ''x'' ?a no_request ''form'' \<and>
      skipped ?P ''x'' ?a no_request ''json''"
    using 4 by simp
  show ?thesis using 1 2 3 5 by (simp only: simp_thms)
qed

lemma exn_not_wrapped:
  "ConversionError e name \<noteq> e" "ValidationError e name \<noteq> e"
  by (induction e) auto

lemma validate_each_first_failure:
  assumes "list_all (passes a) oks" and "Arg_validate a x = Inl e"
  shows "validate_each a (oks @ x # rest) = Inl e"
  using assms by (induction oks) (auto simp: passes_def split: sum.splits)

lemma Arg_validated_first_failure:
  assumes "elements a v = oks @ x # rest" and "list_all (passes a) oks"
      and "Arg_validate a x = Inl e"
  shows "Arg_validated a v = Inl e"
proof (cases "multiple a \<noteq> None \<and> isinstance_list v")
  case True
  then have "items v = oks @ x # rest" using assms(1) by (simp add: elements_def)
  then have "validate_each a (items v) = Inl e"
    using validate_each_first_failure [OF assms(2,3)] by simp
  then show ?thesis using True by (auto simp: Arg_validated_def)
next
  case False
  then have "[v] = oks @ x # rest" using assms(1) by (auto simp: elements_def split: if_splits)
  then have "v = x" by (cases oks) auto
  then show ?thesis using False assms(3) by (auto simp: Arg_validated_def split: option.splits)
qed

lemma scan_error_origin:
  assumes "snd (scan self name a req v0 ts) = Inl e"
  shows "(\<exists>u. snd (Parser_get_value self name a req u) = Inl e) \<or>
         (\<exists>w. validated_named name a w = Inl e) \<or>
         fallback self req name a = Inl e \<or> e = MissingArg name"
  using assms
proof (induction ts arbitrary: v0)
  case Nil
  then show ?case
    by (auto simp: after_loop_def missing_check_def split: if_splits sum.splits)
next
  case (Cons u ts)
  obtain ev r where g: "Parser_get_value self name a req u = (ev, r)"
    by (cases "Parser_get_value self name a req u")
  show ?case
  proof (cases r)
    case (Inl x)
    then have "snd (Parser_get_value self name a req u) = Inl e"
      using Cons.prems g by simp
    then show ?thesis by blast
  next
    case (Inr w)
    show ?thesis
    proof (cases "usable a w")
      case True
      then have "validated_named name a w = Inl e"
        using g Inr Cons.prems by (auto simp: usable_def)
      then show ?thesis by blast
    next
      case False
      then have "snd (scan self name a req w ts) = Inl e"
        using g Inr Cons.prems by (auto simp: usable_def after_def split: if_splits)
      then show ?thesis by (rule Cons.IH)
    qed
  qed
qed

lemma parse_arg_error_origin:
  assumes "snd (parse_arg self name a req ts0) = Inl e"
  shows "(\<exists>u. snd (Parser_get_value self name a req u) = Inl e) \<or>
         (\<exists>w. validated_named name a w = Inl e) \<or>
         fallback self req name a = Inl e \<or> e = MissingArg name \<or> (\<exists>m. e = TypeError m)"
proof -
  let ?ts = "or_targets ts0 (targets self)"
  let ?goal = "(\<exists>u. snd (Parser_get_value self name a req u) = Inl e) \<or>
         (\<exists>w. validated_named name a w = Inl e) \<or>
         fallback self req name a = Inl e \<or> e = MissingArg name \<or> (\<exists>m. e = TypeError m)"
  have rest: ?goal
    if "(case Parser_validated_targets self ?ts of
          Inl x \<Rightarrow> Inl x | Inr ts \<Rightarrow> snd (scan self name a req v0 ts)) = Inl e" for v0
  proof (cases "Parser_validated_targets self ?ts")
    case (Inl x)
    then show ?thesis using that by (auto simp: Parser_validated_targets_def split: if_splits)
  next
    case (Inr ts)
    then have "snd (scan self name a req v0 ts) = Inl e" using that by simp
    from scan_error_origin [OF this] show ?thesis by blast
  qed
  obtain ev r where g:
    "(if pinned a then Parser_get_value self name a req (the (target a)) else ([], Inr PNone)) = (ev, r)"
    by (cases "if pinned a then Parser_get_value self name a req (the (target a)) else ([], Inr PNone)")
  show ?thesis
  proof (cases r)
    case (Inl x)
    then have "snd (parse_arg self name a req ts0) = Inl x"
      using g by (simp add: parse_arg_def)
    then have "x = e" using assms by simp
    then have "snd (Parser_get_value self name a req (the (target a))) = Inl e"
      using g Inl by (auto split: if_splits)
    then show ?thesis by blast
  next
    case (Inr w)
    show ?thesis
    proof (cases "pinned a \<and> w \<noteq> PNone")
      case True
      then have "validated_named name a w = Inl e"
        using g Inr assms by (simp add: parse_arg_def)
      then show ?thesis by blast
    next
      case False
      then have "(case Parser_validated_targets self ?ts of
          Inl x \<Rightarrow> Inl x | Inr ts \<Rightarrow> snd (scan self name a req w ts)) = Inl e"
        using g Inr assms by (auto simp: parse_arg_def after_def split: sum.splits)
      then show ?thesis by (rule rest)
    qed
  qed
qed

section \<open>Errors carry the name of the argument\<close>

text \<open>
  Claim C5. Let \<^verbatim>\<open>parse_arg\<close> hand a fetched value to \<^verbatim>\<open>validated\<close>, and let \<open>x\<close>
  be the first of its elements (the value itself without \<^verbatim>\<open>multiple\<close>) that does not
  pass. If \<^verbatim>\<open>convert\<close> raises \<open>e\<close> on \<open>x\<close>, \<^verbatim>\<open>parse_arg\<close> raises
  \<^verbatim>\<open>ConversionError\<close> with \<open>e\<close> and the name, and not \<open>e\<close> itself; if \<^verbatim>\<open>validate\<close>
  raises \<open>e\<close>, it raises \<^verbatim>\<open>ValidationError\<close> with \<open>e\<close> and the name, and not \<open>e\<close>
  itself; if \<^verbatim>\<open>validate\<close> returns a falsy value, it raises \<^verbatim>\<open>InvalidArg\<close> with the
  name. And \<^verbatim>\<open>parse_arg\<close> never raises one of the three name-less internal errors,
  unless a fetch function or the fallback raises one itself.
\<close>

theorem errors_carry_the_name:
  "(found_at self name a req ts0 pre t post v \<longrightarrow>
    elements a v = oks @ x # rest \<longrightarrow> list_all (passes a) oks \<longrightarrow>
      (\<forall>e. convert a x = Inl e \<longrightarrow>
         snd (parse_arg self name a req ts0) = Inl (ConversionError e name) \<and>
         snd (parse_arg self name a req ts0) \<noteq> Inl e) \<and>
      (\<forall>c e. convert a x = Inr c \<longrightarrow> validate a c = Inl e \<longrightarrow>
         snd (parse_arg self name a req ts0) = Inl (ValidationError e name) \<and>
         snd (parse_arg self name a req ts0) \<noteq> Inl e) \<and>
      (\<forall>c r. convert a x = Inr c \<longrightarrow> validate a c = Inr r \<longrightarrow> \<not> truthy r \<longrightarrow>
         snd (parse_arg self name a req ts0) = Inl (InvalidArg name))) \<and>
   ((\<forall>u err. snd (Parser_get_value self name a req u) = Inl err \<longrightarrow> \<not> internal_error err) \<longrightarrow>
    (\<forall>err. fallback self req name a = Inl err \<longrightarrow> \<not> internal_error err) \<longrightarrow>
      (\<forall>err. snd (parse_arg self name a req ts0) = Inl err \<longrightarrow> \<not> internal_error err))"
proof (intro conjI impI allI)
  fix e
  assume f: "found_at self name a req ts0 pre t post v"
     and el: "elements a v = oks @ x # rest" and ok: "list_all (passes a) oks"
     and c: "convert a x = Inl e"
  have eq: "snd (parse_arg self name a req ts0) = validated_named name a v"
    using f by (rule parse_arg_found_at)
  have "Arg_validate a x = Inl (InternalConversionError e)"
    using c by (simp add: Arg_validate_def)
  then have "Arg_validated a v = Inl (InternalConversionError e)"
    using el ok by (rule Arg_validated_first_failure [rotated 2])
  then show r: "snd (parse_arg self name a req ts0) = Inl (ConversionError e name)"
    by (simp add: eq validated_named_def)
  show "snd (parse_arg self name a req ts0) \<noteq> Inl e"
    by (simp add: r exn_not_wrapped)
next
  fix c e
  assume f: "found_at self name a req ts0 pre t post v"
     and el: "elements a v = oks @ x # rest" and ok: "list_all (passes a) oks"
     and c: "convert a x = Inr c" and vd: "validate a c = Inl e"
  have eq: "snd (parse_arg self name a req ts0) = validated_named name a v"
    using f by (rule parse_arg_found_at)
  have "Arg_validate a x = Inl (InternalValidationError e)"
    using c vd by (simp add: Arg_validate_def)
  then have "Arg_validated a v = Inl (InternalValidationError e)"
    using el ok by (rule Arg_validated_first_failure [rotated 2])
  then show r: "snd (parse_arg self name a req ts0) = Inl (ValidationError e name)"
    by (simp add: eq validated_named_def)
  show "snd (parse_arg self name a req ts0) \<noteq> Inl e"
    by (simp add: r exn_not_wrapped)
next
  fix c r
  assume f: "found_at self name a req ts0 pre t post v"
     and el: "elements a v = oks @ x # rest" and ok: "list_all (passes a) oks"
     and c: "convert a x = Inr c" and vd: "validate a c = Inr r" and fl: "\<not> truthy r"
  have eq: "snd (parse_arg self name a req ts0) = validated_named name a v"
    using f by (rule parse_arg_found_at)
  have "Arg_validate a x = Inl InternalInvalidArg"
    using c vd fl by (simp add: Arg_validate_def)
  then have "Arg_validated a v = Inl InternalInvalidArg"
    using el ok by (rule Arg_validated_first_failure [rotated 2])
  then show "snd (parse_arg self name a req ts0) = Inl (InvalidArg name)"
    by (simp add: eq validated_named_def)
next
  fix err
  assume g: "\<forall>u err. snd (Parser_get_value self name a req u) = Inl err \<longrightarrow> \<not> internal_error err"
     and fb: "\<forall>err. fallback self req name a = Inl err \<longrightarrow> \<not> internal_error err"
     and r: "snd (parse_arg self name a req ts0) = Inl err"
  from parse_arg_error_origin [OF r] g fb validated_named_not_internal
  show "\<not> internal_error err"
    by (elim disjE exE) auto
qed


theorem errors_carry_the_name_witness:
  "snd (parse_arg (DictParser None None) ''x''
          (plain_arg\<lparr>convert := (\<lambda>v. Inl (Exception ''bad''))\<rparr>)
          ((\<lambda>loc. Map.empty)(''form'' := [''x'' \<mapsto> PStr ''a''])) None)
     = Inl (ConversionError (Exception ''bad'') ''x'') \<and>
   snd (parse_arg (DictParser None None) ''x''
          (plain_arg\<lparr>validate := (\<lambda>v. Inl (Exception ''worse''))\<rparr>)
          ((\<lambda>loc. Map.empty)(''form'' := [''x'' \<mapsto> PStr ''a''])) None)
     = Inl (ValidationError (Exception ''worse'') ''x'') \<and>
   snd (parse_arg (DictParser None None) ''x''
          (plain_arg\<lparr>validate := (\<lambda>v. Inr (PBool (v \<noteq> PStr ''b''))), multiple := Some CList,
             default_value := PList []\<rparr>)
          ((\<lambda>loc. Map.empty)(''form'' := [''x'' \<mapsto> PList [PStr ''a'', PStr ''b'', PStr ''c'']])) None)
     = Inl (InvalidArg ''x'') \<and>
   \<not> internal_error (ConversionError (Exception ''bad'') ''x'')"
proof -
  let ?P = "DictParser None None"
  let ?r = "(\<lambda>loc. Map.empty)(''form'' := [''x'' \<mapsto> PStr ''a''])"
  let ?rl = "(\<lambda>loc. Map.empty)(''form'' := [''x'' \<mapsto> PList [PStr ''a'', PStr ''b'', PStr ''c'']])"
  let ?c = "plain_arg\<lparr>convert := (\<lambda>v. Inl (Exception ''bad''))\<rparr>"
  let ?v = "plain_arg\<lparr>validate := (\<lambda>v. Inl (Exception ''worse''))\<rparr>"
  let ?i = "plain_arg\<lparr>validate := (\<lambda>v. Inr (PBool (v \<noteq> PStr ''b''))), multiple := Some CList,
             default_value := PList []\<rparr>"
  have fc: "found_at ?P ''x'' ?c ?r None [''querystring''] ''form'' [''json''] (PStr ''a'')"
    by (simp add: found_at_def pinned_empty_def pinned_def or_targets_def invalid_targets_def
        skipped_def usable_def Parser_get_value_def sample_defs)
  have fv: "found_at ?P ''x'' ?v ?r None [''querystring''] ''form'' [''json''] (PStr ''a'')"
    by (simp add: found_at_def pinned_empty_def pinned_def or_targets_def invalid_targets_def
        skipped_def usable_def Parser_get_value_def sample_defs)
  have fi: "found_at ?P ''x'' ?i ?rl None [''querystring''] ''form'' [''json'']
              (PList [PStr ''a'', PStr ''b'', PStr ''c''])"
    by (simp add: found_at_def pinned_empty_def pinned_def or_targets_def invalid_targets_def
        skipped_def usable_def Parser_get_value_def sample_defs)
  have ec: "elements ?c (PStr ''a'') = [] @ PStr ''a'' # []"
    by (simp add: elements_def plain_arg_def)
  have ev: "elements ?v (PStr ''a'') = [] @ PStr ''a'' # []"
    by (simp add: elements_def plain_arg_def)
  have ei: "elements ?i (PList [PStr ''a'', PStr ''b'', PStr ''c'']) = [PStr ''a''] @ PStr ''b'' # [PStr ''c'']"
    by (simp add: elements_def plain_arg_def)
  have oc: "list_all (passes ?c) []" and ov: "list_all (passes ?v) []"
    by simp_all
  have oi: "list_all (passes ?i) [PStr ''a'']"
    by (simp add: passes_def Arg_validate_def plain_arg_def noop_def)
  have cc: "convert ?c (PStr ''a'') = Inl (Exception ''bad'')"
    by simp
  have cv: "convert ?v (PStr ''a'') = Inr (PStr ''a'')"
    by (simp add: plain_arg_def noop_def)
  have vv: "validate ?v (PStr ''a'') = Inl (Exception ''worse'')"
    by simp
  have ci: "convert ?i (PStr ''b'') = Inr (PStr ''b'')"
    by (simp add: plain_arg_def noop_def)
  have vi: "validate ?i (PStr ''b'') = Inr (PBool False)"
    by simp
  have fl: "\<not> truthy (PBool False)"
    by simp
  note tc = errors_carry_the_name [THEN conjunct1, rule_format, OF fc ec oc]
  note tv = errors_carry_the_name [THEN conjunct1, rule_format, OF fv ev ov]
  note ti = errors_carry_the_name [THEN conjunct1, rule_format, OF fi ei oi]
  have 1: "snd (parse_arg ?P ''x'' ?c ?r None) = Inl (ConversionError (Exception ''bad'') ''x'')"
    using tc [THEN conjunct1, rule_format, OF cc, THEN conjunct1] .
  have 2: "snd (parse_arg ?P ''x'' ?v ?r None) = Inl (ValidationError (Exception ''worse'') ''x'')"
    using tv [THEN conjunct2, THEN conjunct1, rule_format, OF cv vv, THEN conjunct1] .
  have 3: "snd (parse_arg ?P ''x'' ?i ?rl None) = Inl (InvalidArg ''x'')"
    using ti [THEN conjunct2, THEN conjunct2, rule_format, OF ci vi fl] .
  have g: "\<And>u err. snd (Parser_get_value ?P ''x'' ?c ?r u) = Inl err \<Longrightarrow> \<not> internal_error err"
    using DictParser_fetch_returns [of None None "''x''" ?c ?r] by (metis sum.distinct(1))
  have fb: "\<And>err. fallback ?P ?r ''x'' ?c = Inl err \<Longrightarrow> \<not> internal_error err"
    by (simp add: sample_defs)
  have 4: "\<not> internal_error (ConversionError (Exception ''bad'') ''x'')"
    using errors_carry_the_name [THEN conjunct2, rule_format, OF g fb 1] .
  show ?thesis using 1 2 3 4 by (simp only: simp_thms)
qed

section \<open>Lists and sets of values\<close>

lemma set_add_subset: "set (set_add s x) \<subseteq> insert x (set s)"
  by (auto simp: set_add_def)

lemma set_add_keys: "py_key ` set (set_add s x) = insert (py_key x) (py_key ` set s)"
proof (cases "list_ex (\<lambda>y. py_eq y x) s")
  case True
  then obtain y where "y \<in> set s" "py_key y = py_key x"
    by (auto simp: list_ex_iff py_eq_def)
  then have "py_key x \<in> py_key ` set s"
    by (metis imageI)
  then show ?thesis using True by (auto simp: set_add_def)
next
  case False
  then show ?thesis by (auto simp: set_add_def)
qed

lemma set_add_distinct: "distinct (map py_key s) \<Longrightarrow> distinct (map py_key (set_add s x))"
  by (auto simp: set_add_def py_eq_def list_ex_iff)

lemma foldl_set_add:
  "set (foldl set_add s xs) \<subseteq> set s \<union> set xs \<and>
   py_key ` set (foldl set_add s xs) = py_key ` (set s \<union> set xs) \<and>
   (distinct (map py_key s) \<longrightarrow> distinct (map py_key (foldl set_add s xs)))"
proof (induction xs arbitrary: s)
  case Nil
  then show ?case by simp
next
  case (Cons x xs)
  have a: "set (foldl set_add (set_add s x) xs) \<subseteq> set (set_add s x) \<union> set xs"
    and b: "py_key ` set (foldl set_add (set_add s x) xs) = py_key ` (set (set_add s x) \<union> set xs)"
    and c: "distinct (map py_key (set_add s x)) \<longrightarrow> distinct (map py_key (foldl set_add (set_add s x) xs))"
    using Cons.IH [of "set_add s x"] by simp_all
  have 1: "set (foldl set_add s (x # xs)) \<subseteq> set s \<union> set (x # xs)"
    using a set_add_subset [of s x] by auto
  have 2: "py_key ` set (foldl set_add s (x # xs)) = py_key ` (set s \<union> set (x # xs))"
    using b set_add_keys [of s x] by (simp add: image_Un)
  have 3: "distinct (map py_key s) \<longrightarrow> distinct (map py_key (foldl set_add s (x # xs)))"
    using c set_add_distinct [of s x] by simp
  show ?case using 1 2 3 by blast
qed

lemma validate_each_ok:
  assumes "\<forall>x\<in>set xs. convert a x = Inr (f x) \<and> (\<exists>r. validate a (f x) = Inr r \<and> truthy r)"
  shows "validate_each a xs = Inr (map f xs)"
  using assms by (induction xs) (auto simp: Arg_validate_def)

text \<open>
  Claim C7. For an \<^verbatim>\<open>Arg\<close> with \<^verbatim>\<open>multiple=list\<close> and a list input whose elements
  all convert (to \<open>f x\<close>) and pass validation, \<^verbatim>\<open>validated\<close> returns the list of the
  converted elements in the order of the input. With \<^verbatim>\<open>multiple=set\<close> (and converted
  elements that are hashable, as a Python set needs) it returns a set: its elements are
  converted elements, every converted element is equal to one of them, and no two of them
  are equal, so duplicates collapse. The container is the one that \<^verbatim>\<open>multiple\<close> names.
  Conversion and validation are applied to each element: when the elements \<open>xs\<close> pass
  and the element \<open>x\<close> that follows them does not, \<^verbatim>\<open>validated\<close> returns no container
  but raises for \<open>x\<close>, the internal conversion error with \<open>e\<close> when \<^verbatim>\<open>convert\<close> raises
  \<open>e\<close> on \<open>x\<close>, the internal validation error with \<open>e\<close> when \<^verbatim>\<open>validate\<close> raises
  \<open>e\<close> on the converted \<open>x\<close>, and the internal invalid-argument error when
  \<^verbatim>\<open>validate\<close> returns a falsy value for the converted \<open>x\<close>.
\<close>

theorem validated_multiple:
  assumes "\<forall>x\<in>set xs. convert a x = Inr (f x) \<and> (\<exists>r. validate a (f x) = Inr r \<and> truthy r)"
  shows "(multiple a = Some CList \<longrightarrow> Arg_validated a (PList xs) = Inr (PList (map f xs))) \<and>
         (multiple a = Some CSet \<longrightarrow> list_all hashable (map f xs) \<longrightarrow>
            (\<exists>ys. Arg_validated a (PList xs) = Inr (PSet ys) \<and>
                  set ys \<subseteq> set (map f xs) \<and>
                  (\<forall>y\<in>set (map f xs). \<exists>z\<in>set ys. py_eq z y) \<and>
                  distinct (map py_key ys))) \<and>
         (multiple a \<noteq> None \<longrightarrow>
            (\<forall>e. convert a x = Inl e \<longrightarrow>
               Arg_validated a (PList (xs @ x # rest)) = Inl (InternalConversionError e)) \<and>
            (\<forall>c e. convert a x = Inr c \<longrightarrow> validate a c = Inl e \<longrightarrow>
               Arg_validated a (PList (xs @ x # rest)) = Inl (InternalValidationError e)) \<and>
            (\<forall>c r. convert a x = Inr c \<longrightarrow> validate a c = Inr r \<longrightarrow> \<not> truthy r \<longrightarrow>
               Arg_validated a (PList (xs @ x # rest)) = Inl InternalInvalidArg))"
proof -
  have ve: "validate_each a xs = Inr (map f xs)"
    using assms by (rule validate_each_ok)
  have lst: "Arg_validated a (PList xs) = Inr (PList (map f xs))" if "multiple a = Some CList"
    using ve that by (simp add: Arg_validated_def py_list_def)
  have st: "\<exists>ys. Arg_validated a (PList xs) = Inr (PSet ys) \<and>
                  set ys \<subseteq> set (map f xs) \<and>
                  (\<forall>y\<in>set (map f xs). \<exists>z\<in>set ys. py_eq z y) \<and>
                  distinct (map py_key ys)"
    if m: "multiple a = Some CSet" and h: "list_all hashable (map f xs)"
  proof -
    let ?ys = "foldl set_add [] (map f xs)"
    have r: "Arg_validated a (PList xs) = Inr (PSet ?ys)"
      using ve m h by (simp add: Arg_validated_def py_set_def)
    note p = foldl_set_add [of "[]" "map f xs"]
    have s: "set ?ys \<subseteq> set (map f xs)"
      using p by simp
    have k: "py_key ` set ?ys = py_key ` set (map f xs)"
      using p by simp
    have c: "\<forall>y\<in>set (map f xs). \<exists>z\<in>set ?ys. py_eq z y"
    proof
      fix y assume "y \<in> set (map f xs)"
      then have "py_key y \<in> py_key ` set ?ys" using k by blast
      then show "\<exists>z\<in>set ?ys. py_eq z y" by (auto simp: py_eq_def)
    qed
    have d: "distinct (map py_key ?ys)"
      using p by simp
    show ?thesis
      using r s c d by blast
  qed
  have ok: "list_all (passes a) xs"
    using assms by (auto simp: list_all_iff passes_def Arg_validate_def)
  have fails: "Arg_validated a (PList (xs @ x # rest)) = Inl err"
    if m: "multiple a \<noteq> None" and v: "Arg_validate a x = Inl err" for err
  proof -
    have el: "elements a (PList (xs @ x # rest)) = xs @ x # rest"
      using m by (simp add: elements_def)
    show ?thesis using el ok v by (rule Arg_validated_first_failure)
  qed
  have cv: "Arg_validated a (PList (xs @ x # rest)) = Inl (InternalConversionError e)"
    if "multiple a \<noteq> None" and "convert a x = Inl e" for e
    using that by (intro fails) (simp_all add: Arg_validate_def)
  have vr: "Arg_validated a (PList (xs @ x # rest)) = Inl (InternalValidationError e)"
    if "multiple a \<noteq> None" and "convert a x = Inr c" and "validate a c = Inl e" for c e
    using that by (intro fails) (simp_all add: Arg_validate_def)
  have vf: "Arg_validated a (PList (xs @ x # rest)) = Inl InternalInvalidArg"
    if "multiple a \<noteq> None" and "convert a x = Inr c" and "validate a c = Inr r" and "\<not> truthy r"
    for c r
    using that by (intro fails) (simp_all add: Arg_validate_def)
  show ?thesis
    using lst st cv vr vf by blast
qed

theorem validated_multiple_witness:
  "Arg_validated
     (plain_arg\<lparr>convert := (\<lambda>v. Inr (PInt (int (len v)))), multiple := Some CList,
        default_value := PList []\<rparr>)
     (PList [PStr ''ab'', PStr ''c'']) = Inr (PList [PInt 2, PInt 1]) \<and>
   (\<exists>ys. Arg_validated
           (plain_arg\<lparr>convert := (\<lambda>v. Inr (PInt (int (len v)))), multiple := Some CSet,
              default_value := PSet []\<rparr>)
           (PList [PStr ''ab'', PStr ''cd'', PStr ''e'']) = Inr (PSet ys) \<and>
         set ys = {PInt 2, PInt 1} \<and> distinct ys) \<and>
   Arg_validated
     (plain_arg\<lparr>convert := (\<lambda>v. if v = PStr ''c'' then Inl (Exception ''bad'')
                                  else Inr (PInt (int (len v)))),
        multiple := Some CSet, default_value := PSet []\<rparr>)
     (PList [PStr ''ab'', PStr ''c'', PStr ''de'']) = Inl (InternalConversionError (Exception ''bad'')) \<and>
   Arg_validated
     (plain_arg\<lparr>convert := (\<lambda>v. Inr (PInt (int (len v)))),
        validate := (\<lambda>v. if v = PInt 1 then Inl (Exception ''boom'') else Inr (PBool True)),
        multiple := Some CList, default_value := PList []\<rparr>)
     (PList [PStr ''ab'', PStr ''c'', PStr ''de'']) = Inl (InternalValidationError (Exception ''boom'')) \<and>
   Arg_validated
     (plain_arg\<lparr>convert := (\<lambda>v. Inr (PInt (int (len v)))),
        validate := (\<lambda>v. Inr (PBool (v \<noteq> PInt 1))),
        multiple := Some CList, default_value := PList []\<rparr>)
     (PList [PStr ''ab'', PStr ''c'', PStr ''de'']) = Inl InternalInvalidArg"
proof -
  let ?f = "\<lambda>v. PInt (int (len v))"
  let ?L = "plain_arg\<lparr>convert := (\<lambda>v. Inr (PInt (int (len v)))), multiple := Some CList,
        default_value := PList []\<rparr>"
  let ?S = "plain_arg\<lparr>convert := (\<lambda>v. Inr (PInt (int (len v)))), multiple := Some CSet,
        default_value := PSet []\<rparr>"
  let ?C = "plain_arg\<lparr>convert := (\<lambda>v. if v = PStr ''c'' then Inl (Exception ''bad'')
                                  else Inr (PInt (int (len v)))),
        multiple := Some CSet, default_value := PSet []\<rparr>"
  let ?E = "plain_arg\<lparr>convert := (\<lambda>v. Inr (PInt (int (len v)))),
        validate := (\<lambda>v. if v = PInt 1 then Inl (Exception ''boom'') else Inr (PBool True)),
        multiple := Some CList, default_value := PList []\<rparr>"
  let ?V = "plain_arg\<lparr>convert := (\<lambda>v. Inr (PInt (int (len v)))),
        validate := (\<lambda>v. Inr (PBool (v \<noteq> PInt 1))),
        multiple := Some CList, default_value := PList []\<rparr>"
  have hL: "\<forall>x\<in>set [PStr ''ab'', PStr ''c''].
      convert ?L x = Inr (?f x) \<and> (\<exists>r. validate ?L (?f x) = Inr r \<and> truthy r)"
    by (simp add: plain_arg_def)
  have hS: "\<forall>x\<in>set [PStr ''ab'', PStr ''cd'', PStr ''e''].
      convert ?S x = Inr (?f x) \<and> (\<exists>r. validate ?S (?f x) = Inr r \<and> truthy r)"
    by (simp add: plain_arg_def)
  have hC: "\<forall>x\<in>set [PStr ''ab''].
      convert ?C x = Inr (?f x) \<and> (\<exists>r. validate ?C (?f x) = Inr r \<and> truthy r)"
    by (simp add: plain_arg_def)
  have hE: "\<forall>x\<in>set [PStr ''ab''].
      convert ?E x = Inr (?f x) \<and> (\<exists>r. validate ?E (?f x) = Inr r \<and> truthy r)"
    by simp
  have hV: "\<forall>x\<in>set [PStr ''ab''].
      convert ?V x = Inr (?f x) \<and> (\<exists>r. validate ?V (?f x) = Inr r \<and> truthy r)"
    by simp
  have mL: "multiple ?L = Some CList" and mS: "multiple ?S = Some CSet"
    by simp_all
  have mC: "multiple ?C \<noteq> None" and mE: "multiple ?E \<noteq> None" and mV: "multiple ?V \<noteq> None"
    by simp_all
  have hh: "list_all hashable (map ?f [PStr ''ab'', PStr ''cd'', PStr ''e''])"
    by simp
  have 1: "Arg_validated ?L (PList [PStr ''ab'', PStr ''c'']) = Inr (PList [PInt 2, PInt 1])"
    using validated_multiple [OF hL, THEN conjunct1, rule_format, OF mL] by simp
  from validated_multiple [OF hS, THEN conjunct2, THEN conjunct1, rule_format, OF mS hh]
  obtain ys where r: "Arg_validated ?S (PList [PStr ''ab'', PStr ''cd'', PStr ''e'']) = Inr (PSet ys)"
    and s: "set ys \<subseteq> set (map ?f [PStr ''ab'', PStr ''cd'', PStr ''e''])"
    and c: "\<forall>y\<in>set (map ?f [PStr ''ab'', PStr ''cd'', PStr ''e'']). \<exists>z\<in>set ys. py_eq z y"
    and d: "distinct (map py_key ys)"
    by blast
  have s': "set ys \<subseteq> {PInt 2, PInt 1}"
    using s by simp
  have "\<exists>z\<in>set ys. py_eq z (PInt 2)" "\<exists>z\<in>set ys. py_eq z (PInt 1)"
    using c by simp_all
  then have "PInt 2 \<in> set ys" "PInt 1 \<in> set ys"
    using s' by (auto simp: py_eq_def)
  then have e: "set ys = {PInt 2, PInt 1}"
    using s' by blast
  have dy: "distinct ys"
    using d by (simp add: distinct_map)
  have 2: "\<exists>ys. Arg_validated ?S (PList [PStr ''ab'', PStr ''cd'', PStr ''e'']) = Inr (PSet ys) \<and>
         set ys = {PInt 2, PInt 1} \<and> distinct ys"
    using r e dy by blast
  have cC: "convert ?C (PStr ''c'') = Inl (Exception ''bad'')"
    by simp
  have cE: "convert ?E (PStr ''c'') = Inr (PInt 1)" and vE: "validate ?E (PInt 1) = Inl (Exception ''boom'')"
    by simp_all
  have cV: "convert ?V (PStr ''c'') = Inr (PInt 1)" and vV: "validate ?V (PInt 1) = Inr (PBool False)"
    by simp_all
  have fl: "\<not> truthy (PBool False)"
    by simp
  note tC = validated_multiple [OF hC, of "PStr ''c''" "[PStr ''de'']", THEN conjunct2, THEN conjunct2,
      rule_format, OF mC]
  note tE = validated_multiple [OF hE, of "PStr ''c''" "[PStr ''de'']", THEN conjunct2, THEN conjunct2,
      rule_format, OF mE]
  note tV = validated_multiple [OF hV, of "PStr ''c''" "[PStr ''de'']", THEN conjunct2, THEN conjunct2,
      rule_format, OF mV]
  have 3: "Arg_validated ?C (PList [PStr ''ab'', PStr ''c'', PStr ''de''])
      = Inl (InternalConversionError (Exception ''bad''))"
    using tC [THEN conjunct1, rule_format, OF cC] by simp
  have 4: "Arg_validated ?E (PList [PStr ''ab'', PStr ''c'', PStr ''de''])
      = Inl (InternalValidationError (Exception ''boom''))"
    using tE [THEN conjunct2, THEN conjunct1, rule_format, OF cE vE] by simp
  have 5: "Arg_validated ?V (PList [PStr ''ab'', PStr ''c'', PStr ''de'']) = Inl InternalInvalidArg"
    using tV [THEN conjunct2, THEN conjunct2, rule_format, OF cV vV fl] by simp
  show ?thesis using 1 2 3 4 5 by (simp only: simp_thms)
qed

section \<open>Resolving a batch\<close>

lemma parse_loop_abort:
  assumes "\<forall>(m, b)\<in>set done. \<exists>r. snd (parse_arg self m b req (Some (or_targets ts0 (targets self)))) = Inr r"
      and "snd (parse_arg self n a req (Some (or_targets ts0 (targets self)))) = Inl e"
  shows "parse_loop self req ts0 parsed (done @ (n, a) # rest) =
           (parse_log self req ts0 (done @ [(n, a)]), Inl e)"
  using assms(1)
proof (induction "done" arbitrary: parsed)
  case Nil
  show ?case using assms(2)
    by (cases "parse_arg self n a req (Some (or_targets ts0 (targets self)))")
       (simp add: parse_log_def)
next
  case (Cons mb "done")
  obtain m b where mb: "mb = (m, b)" by (cases mb)
  obtain ev r where p: "parse_arg self m b req (Some (or_targets ts0 (targets self))) = (ev, Inr r)"
    using Cons.prems mb
    by (cases "parse_arg self m b req (Some (or_targets ts0 (targets self)))") auto
  have ih: "\<And>parsed. parse_loop self req ts0 parsed (done @ (n, a) # rest) =
           (parse_log self req ts0 (done @ [(n, a)]), Inl e)"
    using Cons by simp
  show ?case using mb p ih
    by (simp add: parse_log_def after_def)
qed

lemma parse_abort:
  assumes "\<forall>(m, b)\<in>set done. \<exists>r. snd (parse_arg self m b req (Some (or_targets ts0 (targets self)))) = Inr r"
      and "snd (parse_arg self n a req (Some (or_targets ts0 (targets self)))) = Inl e"
  shows "parse self (done @ (n, a) # rest) req ts0 =
           (case error_callback self of
              Some cb \<Rightarrow>
                (parse_log self req ts0 (done @ [(n, a)]) @ [ErrorCallback e],
                 case cb e of Inl e' \<Rightarrow> Inl e' | Inr r \<Rightarrow> Inr None)
            | None \<Rightarrow>
                (parse_log self req ts0 (done @ [(n, a)]) @ [HandleError e],
                 case handle_error self e of Inl e' \<Rightarrow> Inl e' | Inr r \<Rightarrow> Inr None))"
  using parse_loop_abort [OF assms, of "[]" rest]
  by (simp add: parse_def split: option.splits sum.splits)

text \<open>
  Claim C6. \<^verbatim>\<open>parse\<close> is all or nothing. When the arguments before \<open>n\<close> resolve and
  resolving \<open>n\<close> raises \<open>e\<close>, the calls \<^verbatim>\<open>parse\<close> makes are those of resolving the
  arguments up to \<open>n\<close>, followed by one call of an error handler with \<open>e\<close>: no later
  argument is resolved. The handler is the registered error callback if there is one and
  \<^verbatim>\<open>handle_error\<close> otherwise, and what the handler raises is raised by \<^verbatim>\<open>parse\<close>;
  the \<^verbatim>\<open>handle_error\<close> of the base class raises \<open>e\<close> again. In no case does
  \<^verbatim>\<open>parse\<close> return a dictionary.
\<close>

theorem parse_aborts_at_first_error:
  assumes "\<forall>(m, b)\<in>set done. \<exists>r. snd (parse_arg self m b req (Some (or_targets ts0 (targets self)))) = Inr r"
      and "snd (parse_arg self n a req (Some (or_targets ts0 (targets self)))) = Inl e"
  shows "(\<forall>cb. error_callback self = Some cb \<longrightarrow>
            fst (parse self (done @ (n, a) # rest) req ts0) =
              parse_log self req ts0 (done @ [(n, a)]) @ [ErrorCallback e] \<and>
            (\<forall>e'. cb e = Inl e' \<longrightarrow> snd (parse self (done @ (n, a) # rest) req ts0) = Inl e')) \<and>
         (error_callback self = None \<longrightarrow>
            fst (parse self (done @ (n, a) # rest) req ts0) =
              parse_log self req ts0 (done @ [(n, a)]) @ [HandleError e] \<and>
            (\<forall>e'. handle_error self e = Inl e' \<longrightarrow>
               snd (parse self (done @ (n, a) # rest) req ts0) = Inl e') \<and>
            (handle_error self = raise_error \<longrightarrow>
               snd (parse self (done @ (n, a) # rest) req ts0) = Inl e)) \<and>
         (\<forall>d. snd (parse self (done @ (n, a) # rest) req ts0) \<noteq> Inr (Some d))"
  using parse_abort [OF assms, of rest]
  by (auto simp: raise_error_def split: option.splits sum.splits)

theorem parse_aborts_at_first_error_witness:
  "parse (DictParser None None)
     [(''a'', plain_arg), (''b'', plain_arg\<lparr>required := True\<rparr>), (''c'', plain_arg)]
     ((\<lambda>loc. Map.empty)(''form'' := [''a'' \<mapsto> PStr ''v'', ''c'' \<mapsto> PStr ''w''])) None
   = ([Fetched ''querystring'' ''a'', Fetched ''form'' ''a'',
       Fetched ''querystring'' ''b'', Fetched ''form'' ''b'', Fetched ''json'' ''b'', FellBack ''b'',
       HandleError (MissingArg ''b'')],
      Inl (MissingArg ''b'')) \<and>
   parse (error_handler (DictParser None None) (\<lambda>error. Inl (Exception ''custom'')))
     [(''b'', plain_arg\<lparr>required := True\<rparr>), (''c'', plain_arg)]
     ((\<lambda>loc. Map.empty)(''form'' := [''a'' \<mapsto> PStr ''v'', ''c'' \<mapsto> PStr ''w''])) None
   = ([Fetched ''querystring'' ''b'', Fetched ''form'' ''b'', Fetched ''json'' ''b'', FellBack ''b'',
       ErrorCallback (MissingArg ''b'')],
      Inl (Exception ''custom''))"
proof -
  let ?P = "DictParser None None"
  let ?C = "error_handler (DictParser None None) (\<lambda>error. Inl (Exception ''custom''))"
  let ?R = "(\<lambda>loc. Map.empty)(''form'' := [''a'' \<mapsto> PStr ''v'', ''c'' \<mapsto> PStr ''w''])"
  let ?b = "plain_arg\<lparr>required := True\<rparr>"
  have a: "parse_arg ?P ''a'' plain_arg ?R (Some (or_targets None (targets ?P)))
      = ([Fetched ''querystring'' ''a'', Fetched ''form'' ''a''], Inr (PStr ''v''))"
    by (simp add: model_defs sample_defs)
  have b: "parse_arg ?P ''b'' ?b ?R (Some (or_targets None (targets ?P)))
      = ([Fetched ''querystring'' ''b'', Fetched ''form'' ''b'', Fetched ''json'' ''b'', FellBack ''b''],
         Inl (MissingArg ''b''))"
    by (simp add: model_defs sample_defs)
  have d: "\<forall>(m, b)\<in>set [(''a'', plain_arg)].
      \<exists>r. snd (parse_arg ?P m b ?R (Some (or_targets None (targets ?P)))) = Inr r"
    using a by simp
  have e: "snd (parse_arg ?P ''b'' ?b ?R (Some (or_targets None (targets ?P)))) = Inl (MissingArg ''b'')"
    using b by simp
  have ec: "error_callback ?P = None" and he: "handle_error ?P = raise_error"
    by (simp_all add: sample_defs)
  have l: "parse_log ?P ?R None ([(''a'', plain_arg)] @ [(''b'', ?b)]) =
      [Fetched ''querystring'' ''a'', Fetched ''form'' ''a'',
       Fetched ''querystring'' ''b'', Fetched ''form'' ''b'', Fetched ''json'' ''b'', FellBack ''b'']"
    using a b by (simp add: parse_log_def)
  note t = parse_aborts_at_first_error [OF d e, of "[(''c'', plain_arg)]", THEN conjunct2, THEN conjunct1,
      rule_format, OF ec]
  have 1: "fst (parse ?P ([(''a'', plain_arg)] @ (''b'', ?b) # [(''c'', plain_arg)]) ?R None) =
      [Fetched ''querystring'' ''a'', Fetched ''form'' ''a'',
       Fetched ''querystring'' ''b'', Fetched ''form'' ''b'', Fetched ''json'' ''b'', FellBack ''b'',
       HandleError (MissingArg ''b'')]"
    using t [THEN conjunct1] l by simp
  have 2: "snd (parse ?P ([(''a'', plain_arg)] @ (''b'', ?b) # [(''c'', plain_arg)]) ?R None) =
      Inl (MissingArg ''b'')"
    using t [THEN conjunct2, THEN conjunct2, rule_format, OF he] .
  have bC: "parse_arg ?C ''b'' ?b ?R (Some (or_targets None (targets ?C)))
      = ([Fetched ''querystring'' ''b'', Fetched ''form'' ''b'', Fetched ''json'' ''b'', FellBack ''b''],
         Inl (MissingArg ''b''))"
    by (simp add: model_defs sample_defs)
  have dC: "\<forall>(m, b)\<in>set []. \<exists>r. snd (parse_arg ?C m b ?R (Some (or_targets None (targets ?C)))) = Inr r"
    by simp
  have eC: "snd (parse_arg ?C ''b'' ?b ?R (Some (or_targets None (targets ?C)))) = Inl (MissingArg ''b'')"
    using bC by simp
  have ecC: "error_callback ?C = Some (\<lambda>error. Inl (Exception ''custom''))"
    by (simp add: error_handler_def)
  have cbC: "(\<lambda>error. Inl (Exception ''custom'')) (MissingArg ''b'') = (Inl (Exception ''custom'') :: exn + pyval)"
    by simp
  have lC: "parse_log ?C ?R None ([] @ [(''b'', ?b)]) =
      [Fetched ''querystring'' ''b'', Fetched ''form'' ''b'', Fetched ''json'' ''b'', FellBack ''b'']"
    using bC by (simp add: parse_log_def)
  note c = parse_aborts_at_first_error [OF dC eC, of "[(''c'', plain_arg)]", THEN conjunct1,
      rule_format, OF ecC]
  have 3: "fst (parse ?C ([] @ (''b'', ?b) # [(''c'', plain_arg)]) ?R None) =
      [Fetched ''querystring'' ''b'', Fetched ''form'' ''b'', Fetched ''json'' ''b'', FellBack ''b'',
       ErrorCallback (MissingArg ''b'')]"
    using c [THEN conjunct1] lC by simp
  have 4: "snd (parse ?C ([] @ (''b'', ?b) # [(''c'', plain_arg)]) ?R None) = Inl (Exception ''custom'')"
    using c [THEN conjunct2, rule_format, OF cbC] .
  show ?thesis using 1 2 3 4 by (simp add: prod_eq_iff)
qed

text \<open>
  Claim C10. When resolving an argument raises and the registered error callback returns
  for that error, \<^verbatim>\<open>parse\<close> returns \<^verbatim>\<open>None\<close>; when the callback raises, \<^verbatim>\<open>parse\<close>
  raises what it raised. Either way the caller gets no dictionary, partial or empty.
\<close>

theorem parse_returns_None_after_callback:
  assumes "\<forall>(m, b)\<in>set done. \<exists>r. snd (parse_arg self m b req (Some (or_targets ts0 (targets self)))) = Inr r"
      and "snd (parse_arg self n a req (Some (or_targets ts0 (targets self)))) = Inl e"
      and "error_callback self = Some cb"
  shows "(\<forall>r. cb e = Inr r \<longrightarrow> snd (parse self (done @ (n, a) # rest) req ts0) = Inr None) \<and>
         (\<forall>e'. cb e = Inl e' \<longrightarrow> snd (parse self (done @ (n, a) # rest) req ts0) = Inl e') \<and>
         (\<forall>d. snd (parse self (done @ (n, a) # rest) req ts0) \<noteq> Inr (Some d))"
  using parse_abort [OF assms(1,2), of rest] assms(3)
  by (auto split: sum.splits)


theorem parse_returns_None_after_callback_witness:
  "snd (parse (error_handler (DictParser None None) (\<lambda>error. Inr PNone))
          [(''a'', plain_arg), (''b'', plain_arg\<lparr>required := True\<rparr>), (''c'', plain_arg)]
          ((\<lambda>loc. Map.empty)(''form'' := [''a'' \<mapsto> PStr ''v'', ''c'' \<mapsto> PStr ''w''])) None)
   = Inr None \<and>
   snd (parse (error_handler (DictParser None None) (\<lambda>error. Inl (Exception ''custom'')))
          [(''a'', plain_arg), (''b'', plain_arg\<lparr>required := True\<rparr>), (''c'', plain_arg)]
          ((\<lambda>loc. Map.empty)(''form'' := [''a'' \<mapsto> PStr ''v'', ''c'' \<mapsto> PStr ''w''])) None)
   = Inl (Exception ''custom'')"
proof -
  let ?R = "(\<lambda>loc. Map.empty)(''form'' := [''a'' \<mapsto> PStr ''v'', ''c'' \<mapsto> PStr ''w''])"
  let ?b = "plain_arg\<lparr>required := True\<rparr>"
  let ?args = "[(''a'', plain_arg)] @ (''b'', ?b) # [(''c'', plain_arg)]"
  have main: "snd (parse (error_handler (DictParser None None) cb) ?args ?R None) =
      (case cb (MissingArg ''b'') of Inl e' \<Rightarrow> Inl e' | Inr r \<Rightarrow> Inr None)" for cb
  proof -
    let ?P = "error_handler (DictParser None None) cb"
    have a: "snd (parse_arg ?P ''a'' plain_arg ?R (Some (or_targets None (targets ?P)))) = Inr (PStr ''v'')"
      by (simp add: model_defs sample_defs)
    have e: "snd (parse_arg ?P ''b'' ?b ?R (Some (or_targets None (targets ?P)))) = Inl (MissingArg ''b'')"
      by (simp add: model_defs sample_defs)
    have d: "\<forall>(m, b)\<in>set [(''a'', plain_arg)].
        \<exists>r. snd (parse_arg ?P m b ?R (Some (or_targets None (targets ?P)))) = Inr r"
      using a by simp
    have ec: "error_callback ?P = Some cb"
      by (simp add: error_handler_def)
    note t = parse_returns_None_after_callback [OF d e ec, of "[(''c'', plain_arg)]"]
    show ?thesis
      using t [THEN conjunct1] t [THEN conjunct2, THEN conjunct1]
      by (cases "cb (MissingArg ''b'')") simp_all
  qed
  show ?thesis
    using main [of "\<lambda>error. Inr PNone"] main [of "\<lambda>error. Inl (Exception ''custom'')"]
    by simp
qed

end
